theory Spec2Isabelle
  imports Main "HOL-Library.Signed_Division"
begin

section \<open>Machine integers\<close>

text \<open>
  Go's \<open>int64\<close> values are modelled as integers kept in the range
  \<open>-2^63 .. 2^63 - 1\<close>: every arithmetic result of type \<open>int64\<close> is passed
  through \<open>i64\<close>, which wraps around as the machine does. Go's integer division truncates
  towards zero, which is \<open>sdiv\<close>.
\<close>

definition i64 :: "int \<Rightarrow> int" where
  "i64 x = (x + 2 ^ 63) mod 2 ^ 64 - 2 ^ 63"

definition is_int64 :: "int \<Rightarrow> bool" where
  "is_int64 x = (- (2 ^ 63) \<le> x \<and> x \<le> 2 ^ 63 - 1)"

section \<open>Chunk planning\<close>

text \<open>\<open>type Chunk struct { Start int64; End int64 }\<close>: inclusive byte bounds.\<close>

record Chunk =
  Start :: int
  End :: int

text \<open>The bytes a chunk asks for: offsets \<open>Start .. End\<close>, none when \<open>End < Start\<close>.\<close>

definition span :: "Chunk \<Rightarrow> int set" where
  "span c = {Start c .. End c}"

definition calculateConcurrency :: "int \<Rightarrow> nat" where
  "calculateConcurrency fileSize = (if fileSize > 1024 * 1024 * 1024 then 8 else 4)"

text \<open>
  One iteration of the loop \<open>for i := 0; i < concurrency; i++\<close> of \<open>downloadFile\<close>:
  \<open>chunks[i].Start = int64(i) * chunkSize\<close>, then
  \<open>chunks[i].End = chunks[i].Start + chunkSize - 1\<close>.
\<close>

definition setChunk :: "int \<Rightarrow> nat \<Rightarrow> Chunk list \<Rightarrow> Chunk list" where
  "setChunk chunkSize i chunks =
     (let chunks1 = chunks[i := (chunks ! i)\<lparr>Start := i64 (int i * chunkSize)\<rparr>];
          chunks2 = chunks1[i := (chunks1 ! i)
                      \<lparr>End := i64 (i64 (Start (chunks1 ! i) + chunkSize) - 1)\<rparr>]
      in chunks2)"


text \<open>
  The chunk computation of \<open>downloadFile\<close> (\<open>make([]Chunk, concurrency)\<close> is a list of
  zero chunks, the loop fills it, and the last chunk's end is overwritten with
  \<open>fileSize - 1\<close>). The indices stay in range: \<open>concurrency\<close> is 4 or 8.
\<close>

definition planChunks :: "int \<Rightarrow> Chunk list" where
  "planChunks fileSize =
     (let concurrency = calculateConcurrency fileSize;
          chunks = replicate concurrency \<lparr>Start = 0, End = 0\<rparr>;
          chunkSize = fileSize sdiv int concurrency;
          chunks = fold (setChunk chunkSize) [0 ..< concurrency] chunks
      in chunks[concurrency - 1 := (chunks ! (concurrency - 1))\<lparr>End := i64 (fileSize - 1)\<rparr>])"

section \<open>Strings\<close>

text \<open>
  Go strings are byte strings: a \<open>string\<close> here is the list of its bytes. The three
  functions of package \<open>strings\<close> that the program calls are written out; the separators
  it passes are single bytes.

  \<open>strings.TrimSpace\<close> removes the leading and the trailing white-space characters, as
  \<open>unicode.IsSpace\<close> defines them (Unicode's White_Space property): the six ASCII ones and
  U+0085, U+00A0, U+1680, U+2000 to U+200A, U+2028, U+2029, U+202F, U+205F, U+3000.
  \<open>spaceRunes\<close> lists their UTF-8 encodings. No encoding is the beginning or the end of
  another character's encoding, so the string begins (ends) with a white-space character
  exactly when it begins (ends) with one of these byte sequences; bytes that are not valid
  UTF-8 are no white space.
\<close>

definition spaceRunes :: "string list" where
  "spaceRunes =
     [[CHR 0x09], [CHR 0x0A], [CHR 0x0B], [CHR 0x0C], [CHR 0x0D], [CHR 0x20],
      [CHR 0xC2, CHR 0x85], [CHR 0xC2, CHR 0xA0],
      [CHR 0xE1, CHR 0x9A, CHR 0x80],
      [CHR 0xE2, CHR 0x80, CHR 0x80], [CHR 0xE2, CHR 0x80, CHR 0x81],
      [CHR 0xE2, CHR 0x80, CHR 0x82], [CHR 0xE2, CHR 0x80, CHR 0x83],
      [CHR 0xE2, CHR 0x80, CHR 0x84], [CHR 0xE2, CHR 0x80, CHR 0x85],
      [CHR 0xE2, CHR 0x80, CHR 0x86], [CHR 0xE2, CHR 0x80, CHR 0x87],
      [CHR 0xE2, CHR 0x80, CHR 0x88], [CHR 0xE2, CHR 0x80, CHR 0x89],
      [CHR 0xE2, CHR 0x80, CHR 0x8A],
      [CHR 0xE2, CHR 0x80, CHR 0xA8], [CHR 0xE2, CHR 0x80, CHR 0xA9],
      [CHR 0xE2, CHR 0x80, CHR 0xAF],
      [CHR 0xE2, CHR 0x81, CHR 0x9F],
      [CHR 0xE3, CHR 0x80, CHR 0x80]]"

text \<open>The string without the first of \<open>runes\<close> it begins with, if it begins with one.\<close>

definition dropRune :: "string list \<Rightarrow> string \<Rightarrow> string option" where
  "dropRune runes s =
     map_option (\<lambda>r. drop (length r) s)
       (find (\<lambda>r. r \<noteq> [] \<and> take (length r) s = r) runes)"

lemma dropRune_shorter: "dropRune runes s = Some rest \<Longrightarrow> length rest < length s"
proof -
  assume "dropRune runes s = Some rest"
  then obtain r where r: "r \<noteq> []" "take (length r) s = r" "rest = drop (length r) s"
    by (auto simp: dropRune_def find_Some_iff)
  from r(2) have "length r \<le> length s"
    by (metis length_take min.cobounded1)
  with r(1,3) show ?thesis by (cases r; cases s) auto
qed

function trimRunes :: "string list \<Rightarrow> string \<Rightarrow> string" where
  "trimRunes runes s =
     (case dropRune runes s of None \<Rightarrow> s | Some rest \<Rightarrow> trimRunes runes rest)"
  by pat_completeness auto
termination
  by (relation "measure (\<lambda>(runes, s). length s)") (auto dest: dropRune_shorter)

definition TrimSpace :: "string \<Rightarrow> string" where
  "TrimSpace s = rev (trimRunes (map rev spaceRunes) (rev (trimRunes spaceRunes s)))"

text \<open>\<open>strings.Split(s, sep)\<close>: all pieces between separators, at least one piece.\<close>

fun Split :: "string \<Rightarrow> char \<Rightarrow> string list" where
  "Split [] sep = [[]]"
| "Split (c # cs) sep =
     (if c = sep then [] # Split cs sep
      else (case Split cs sep of [] \<Rightarrow> [[c]] | p # ps \<Rightarrow> (c # p) # ps))"

text \<open>\<open>strings.SplitN(s, sep, 2)\<close>: cut at the first separator, if there is one.\<close>

definition SplitN2 :: "string \<Rightarrow> char \<Rightarrow> string list" where
  "SplitN2 s sep =
     (if sep \<in> set s
      then [takeWhile (\<lambda>c. c \<noteq> sep) s, tl (dropWhile (\<lambda>c. c \<noteq> sep) s)]
      else [s])"

text \<open>\<open>fmt.Sprintf("%d", i)\<close>: decimal digits, with a minus sign for a negative number.\<close>

fun digits :: "nat \<Rightarrow> string" where
  "digits n =
     (if n < 10 then [''0123456789'' ! n]
      else digits (n div 10) @ [''0123456789'' ! (n mod 10)])"

definition itoa :: "int \<Rightarrow> string" where
  "itoa i = (if i < 0 then CHR ''-'' # digits (nat (- i)) else digits (nat i))"

section \<open>Errors\<close>

text \<open>
  Go's \<open>error\<close> values. \<open>LibError\<close> stands for an error that the standard library
  produces (URL parser, network, file system), with its message; \<open>EOF\<close> is \<open>io.EOF\<close>.
  The other constructors are the program's own \<open>fmt.Errorf\<close> values, one for each format
  string, carrying what the format prints: the wrapped error (\<open>%v\<close>) or the status code and
  chunk index (\<open>%d\<close>).
\<close>

datatype error =
    EOF
  | LibError string
  | InvalidURL error
  | HeadFailed error
  | BadStatus int
  | CreateTmpFailed error
  | ChunkFailed nat error
  | BadChunkStatus int
  | RenameFailed error

section \<open>HTTP\<close>

text \<open>
  \<open>http.Header\<close> is \<open>map[string][]string\<close>: the values of each key in the order they
  were added; a key that is absent has no values.
\<close>

type_synonym Header = "string \<Rightarrow> string list"

record Request =
  Method :: string
  URL :: string
  Header :: Header

text \<open>
  A response as the program reads it. \<open>ContentLength\<close> is the \<open>int64\<close> field of
  \<open>http.Response\<close>: the length the server declared, and \<open>-1\<close> when the length is unknown
  (net/http's value when the server sends no \<open>Content-Length\<close>). \<open>Body\<close> is what the
  successive calls of \<open>resp.Body.Read(buf)\<close> return: the bytes read (\<open>n\<close> is their
  number) and the error, \<open>None\<close> for \<open>nil\<close>. When the list is used up the body is at its
  end and \<open>Read\<close> returns \<open>0, io.EOF\<close>.
\<close>

record Response =
  StatusCode :: int
  RespHeader :: Header
  ContentLength :: int
  Body :: "(string \<times> error option) list"

record URL_ =
  Path :: string
  url_String :: string

text \<open>
  What the program takes from its surroundings: the parts of the standard library that are
  not written out here, the network, and the failures of the file system.
  \<^item> \<open>ParseRequestURI\<close> is \<open>url.ParseRequestURI\<close>; a parsed URL is known by its path and
    by the string \<open>String()\<close> gives back.
  \<^item> \<open>Base\<close> is \<open>filepath.Base\<close>.
  \<^item> \<open>CanonicalMIMEHeaderKey\<close> is \<open>textproto.CanonicalMIMEHeaderKey\<close>, which
    \<open>Header.Set\<close>, \<open>Header.Add\<close> and \<open>Header.Get\<close> apply to their key.
  \<^item> \<open>Do\<close> is \<open>client.Do\<close>: the server's answer to a request, or the transport's error.
  \<^item> \<open>create_fault\<close>, \<open>rename_fault\<close>: the error of \<open>os.Create\<close> and \<open>os.Rename\<close> on
    the given paths, if they fail. \<open>write_fault name k\<close>: whether the \<open>k\<close>-th write to the
    file created at \<open>name\<close> fails, and if so after how many bytes and with which error.
  \<^item> \<open>sched\<close>: the order in which the chunk goroutines run (see \<open>runOrder\<close>).
\<close>

record Env =
  ParseRequestURI :: "string \<Rightarrow> error + URL_"
  Base :: "string \<Rightarrow> string"
  CanonicalMIMEHeaderKey :: "string \<Rightarrow> string"
  Do :: "Request \<Rightarrow> error + Response"
  create_fault :: "string \<Rightarrow> error option"
  rename_fault :: "string \<Rightarrow> string \<Rightarrow> error option"
  write_fault :: "string \<Rightarrow> nat \<Rightarrow> (nat \<times> error) option"
  sched :: "nat list"

definition StatusOK :: int where
  "StatusOK = 200"

definition StatusPartialContent :: int where
  "StatusPartialContent = 206"

text \<open>
  \<open>http.NewRequest(method, url, nil)\<close>: a request with no header. It fails only on a
  method or a URL that is not well-formed; the methods are literals and the URL has been
  parsed by \<open>downloadFile\<close> before any request is made, so it is taken to succeed.
\<close>

definition NewRequest :: "string \<Rightarrow> string \<Rightarrow> Request" where
  "NewRequest method url = \<lparr>Method = method, URL = url, Header = (\<lambda>k. [])\<rparr>"

definition Header_Set :: "Env \<Rightarrow> string \<Rightarrow> string \<Rightarrow> Header \<Rightarrow> Header" where
  "Header_Set env key val h = h(CanonicalMIMEHeaderKey env key := [val])"

definition Header_Add :: "Env \<Rightarrow> string \<Rightarrow> string \<Rightarrow> Header \<Rightarrow> Header" where
  "Header_Add env key val h =
     h(CanonicalMIMEHeaderKey env key := h (CanonicalMIMEHeaderKey env key) @ [val])"

definition Header_Get :: "Env \<Rightarrow> Header \<Rightarrow> string \<Rightarrow> string" where
  "Header_Get env h key =
     (case h (CanonicalMIMEHeaderKey env key) of [] \<Rightarrow> [] | v # vs \<Rightarrow> v)"

text \<open>
  The block under the comment "add custom request headers", which \<open>downloadChunk\<close> and
  \<open>sequentialDownload\<close> both contain word for word: every \<open>Key:Value\<close> piece of the
  comma-separated header string is added to the request with \<open>Header.Add\<close>; a piece
  without a colon is skipped.
\<close>

definition addPair :: "Env \<Rightarrow> string \<Rightarrow> Request \<Rightarrow> Request" where
  "addPair env pair req =
     (let parts = SplitN2 pair (CHR '':'')
      in if length parts = 2
         then req\<lparr>Header := Header_Add env (TrimSpace (parts ! 0)) (TrimSpace (parts ! 1))
                                 (Header req)\<rparr>
         else req)"

definition addHeaders :: "Env \<Rightarrow> string \<Rightarrow> Request \<Rightarrow> Request" where
  "addHeaders env headers req =
     (if headers \<noteq> [] then fold (addPair env) (Split headers (CHR '','')) req else req)"

section \<open>Files\<close>

text \<open>
  An open file is known by the writes that reached it: \<open>wlog\<close> lists, oldest first, the
  offset of each write call and the bytes it wrote. \<open>pos\<close> is the position \<open>Write\<close>
  writes at. A write call that fails may have written some of its bytes before.
  Both return \<open>n, err\<close> as in Go; the program ignores \<open>n\<close>.
\<close>

record File =
  wlog :: "(int \<times> string) list"
  pos :: int
  wfault :: "nat \<Rightarrow> (nat \<times> error) option"

definition WriteAt :: "string \<Rightarrow> int \<Rightarrow> File \<Rightarrow> nat \<times> error option \<times> File" where
  "WriteAt b off f =
     (case wfault f (length (wlog f)) of
        None \<Rightarrow> (length b, None, f\<lparr>wlog := wlog f @ [(off, b)]\<rparr>)
      | Some (m, e) \<Rightarrow> (min m (length b), Some e, f\<lparr>wlog := wlog f @ [(off, take m b)]\<rparr>))"

definition Write :: "string \<Rightarrow> File \<Rightarrow> nat \<times> error option \<times> File" where
  "Write b f =
     (case WriteAt b (pos f) f of (m, err, f') \<Rightarrow> (m, err, f'\<lparr>pos := pos f + int m\<rparr>))"

text \<open>
  The file system: the files by path, and the calls of \<open>os.Create\<close>, \<open>os.Rename\<close> and
  \<open>os.Remove\<close> made so far, oldest first. \<open>os.Create\<close> truncates. The program ignores the
  result of \<open>os.Remove\<close> and of \<open>Close\<close>; \<open>os.Remove\<close> is taken to delete the path.
\<close>

datatype syscall = OsCreate string | OsRename string string | OsRemove string

record FS =
  files :: "string \<rightharpoonup> File"
  trace :: "syscall list"

definition os_Create :: "Env \<Rightarrow> string \<Rightarrow> FS \<Rightarrow> (error + File) \<times> FS" where
  "os_Create env name fs =
     (let fs1 = fs\<lparr>trace := trace fs @ [OsCreate name]\<rparr>
      in case create_fault env name of
           Some e \<Rightarrow> (Inl e, fs1)
         | None \<Rightarrow>
             (let f = \<lparr>wlog = [], pos = 0, wfault = write_fault env name\<rparr>
              in (Inr f, fs1\<lparr>files := (files fs1)(name \<mapsto> f)\<rparr>)))"

definition os_Rename :: "Env \<Rightarrow> string \<Rightarrow> string \<Rightarrow> FS \<Rightarrow> error option \<times> FS" where
  "os_Rename env oldpath newpath fs =
     (let fs1 = fs\<lparr>trace := trace fs @ [OsRename oldpath newpath]\<rparr>
      in case rename_fault env oldpath newpath of
           Some e \<Rightarrow> (Some e, fs1)
         | None \<Rightarrow>
             (case files fs1 oldpath of
                None \<Rightarrow> (Some (LibError ''no such file or directory''), fs1)
              | Some f \<Rightarrow> (None, fs1\<lparr>files := (files fs1)(newpath \<mapsto> f, oldpath := None)\<rparr>)))"

definition os_Remove :: "string \<Rightarrow> FS \<Rightarrow> FS" where
  "os_Remove name fs = fs\<lparr>trace := trace fs @ [OsRemove name], files := (files fs)(name := None)\<rparr>"

section \<open>The capability probe\<close>

text \<open>
  \<open>checkRangeSupport(client, url)\<close>. Go returns \<open>(false, 0, err)\<close> on an error and
  \<open>(supportsRange, totalSize, nil)\<close> otherwise; the caller reads the first two only when
  \<open>err\<close> is \<open>nil\<close>. The function is given the URL only, not the header string.
\<close>

definition probeRequest :: "string \<Rightarrow> Request" where
  "probeRequest url = NewRequest ''HEAD'' url"

definition checkRangeSupport :: "Env \<Rightarrow> string \<Rightarrow> error + (bool \<times> int)" where
  "checkRangeSupport env url =
     (let req = probeRequest url
      in case Do env req of
           Inl err \<Rightarrow> Inl (HeadFailed err)
         | Inr resp \<Rightarrow>
             if StatusCode resp \<noteq> StatusOK then Inl (BadStatus (StatusCode resp))
             else Inr (Header_Get env (RespHeader resp) ''Accept-Ranges'' = ''bytes'',
                       ContentLength resp))"

section \<open>Fetching one chunk\<close>

text \<open>The request \<open>downloadChunk\<close> builds: a \<open>GET\<close> with the \<open>Range\<close> header set and the
  custom headers added.\<close>

definition chunkRequest :: "Env \<Rightarrow> string \<Rightarrow> Chunk \<Rightarrow> string \<Rightarrow> Request" where
  "chunkRequest env url chunk headers =
     (let req = NewRequest ''GET'' url;
          req = req\<lparr>Header := Header_Set env ''Range''
                   (''bytes='' @ itoa (Start chunk) @ ''-'' @ itoa (End chunk)) (Header req)\<rparr>
      in addHeaders env headers req)"

text \<open>
  The read loop of \<open>downloadChunk\<close>, on what is left of the body: \<open>current\<close> is the
  offset of the next write, \<open>downloaded\<close> the shared progress counter.
  \<open>atomic.AddInt64(downloaded, int64(n))\<close> is the addition on \<open>int64\<close>. Each turn is
  \<open>n, err := resp.Body.Read(buf)\<close>; a write that fails returns its error at once, and
  \<open>io.EOF\<close> from \<open>Read\<close> leaves the loop with no error.
\<close>

fun chunkLoop ::
  "(string \<times> error option) list \<Rightarrow> int \<Rightarrow> File \<Rightarrow> int \<Rightarrow> error option \<times> File \<times> int" where
  "chunkLoop [] current file downloaded = (None, file, downloaded)"
| "chunkLoop ((buf, err) # body) current file downloaded =
     (let n = length buf
      in if n > 0 then
           (case WriteAt buf current file of
              (m, Some writeErr, file1) \<Rightarrow> (Some writeErr, file1, downloaded)
            | (m, None, file1) \<Rightarrow>
                (let downloaded1 = i64 (downloaded + int n);
                     current1 = i64 (current + int n)
                 in case err of
                      Some e \<Rightarrow>
                        if e = EOF then (None, file1, downloaded1)
                        else (Some e, file1, downloaded1)
                    | None \<Rightarrow> chunkLoop body current1 file1 downloaded1))
         else
           (case err of
              Some e \<Rightarrow> if e = EOF then (None, file, downloaded) else (Some e, file, downloaded)
            | None \<Rightarrow> chunkLoop body current file downloaded))"

text \<open>
  \<open>downloadChunk(client, url, chunk, file, headers, downloaded)\<close>: the error (\<open>None\<close> for
  \<open>nil\<close>), the file and the progress counter afterwards.
\<close>

definition downloadChunk ::
  "Env \<Rightarrow> string \<Rightarrow> Chunk \<Rightarrow> File \<Rightarrow> string \<Rightarrow> int \<Rightarrow> error option \<times> File \<times> int" where
  "downloadChunk env url chunk file headers downloaded =
     (let req = chunkRequest env url chunk headers
      in case Do env req of
           Inl err \<Rightarrow> (Some err, file, downloaded)
         | Inr resp \<Rightarrow>
             if StatusCode resp \<noteq> StatusPartialContent
             then (Some (BadChunkStatus (StatusCode resp)), file, downloaded)
             else chunkLoop (Body resp) (Start chunk) file downloaded)"

section \<open>The sequential download\<close>

definition sequentialRequest :: "Env \<Rightarrow> URL_ \<Rightarrow> string \<Rightarrow> Request" where
  "sequentialRequest env parsedURL headers =
     addHeaders env headers (NewRequest ''GET'' (url_String parsedURL))"

text \<open>
  The read loop of \<open>sequentialDownload\<close>. After a read of \<open>n > 0\<close> bytes the statement
  \<open>_, err = file.Write(buf[:n])\<close> assigns the write's error to the variable that held the
  read's: a write that succeeds leaves it \<open>nil\<close>, and the loop goes on to the next read.
  The progress line printed when \<open>verbose\<close> is set is output only.
\<close>

fun seqLoop ::
  "(string \<times> error option) list \<Rightarrow> File \<Rightarrow> int \<Rightarrow> error option \<times> File \<times> int" where
  "seqLoop [] file downloaded = (None, file, downloaded)"
| "seqLoop ((buf, err) # body) file downloaded =
     (let n = length buf
      in if n > 0 then
           (case Write buf file of
              (m, Some writeErr, file1) \<Rightarrow> (Some writeErr, file1, downloaded)
            | (m, None, file1) \<Rightarrow> seqLoop body file1 (i64 (downloaded + int n)))
         else
           (case err of
              Some e \<Rightarrow> if e = EOF then (None, file, downloaded) else (Some e, file, downloaded)
            | None \<Rightarrow> seqLoop body file downloaded))"

text \<open>
  \<open>sequentialDownload(client, parsedURL, filename, headers, verbose)\<close>: the error and the
  file system afterwards. What was written through \<open>file\<close> is in the file at \<open>filename\<close>.
\<close>

definition sequentialDownload ::
  "Env \<Rightarrow> URL_ \<Rightarrow> string \<Rightarrow> string \<Rightarrow> bool \<Rightarrow> FS \<Rightarrow> error option \<times> FS" where
  "sequentialDownload env parsedURL filename headers verbose fs =
     (let req = sequentialRequest env parsedURL headers
      in case Do env req of
           Inl err \<Rightarrow> (Some err, fs)
         | Inr resp \<Rightarrow>
             if StatusCode resp \<noteq> StatusOK then (Some (BadStatus (StatusCode resp)), fs)
             else
               (case os_Create env filename fs of
                  (Inl err, fs1) \<Rightarrow> (Some err, fs1)
                | (Inr file, fs1) \<Rightarrow>
                    (case seqLoop (Body resp) file 0 of
                       (err, file1, downloaded) \<Rightarrow>
                         (err, fs1\<lparr>files := (files fs1)(filename \<mapsto> file1)\<rparr>))))"

section \<open>The coordinator\<close>

definition defaultOutputFilename :: string where
  "defaultOutputFilename = ''index.html''"

definition getFilename :: "Env \<Rightarrow> URL_ \<Rightarrow> string" where
  "getFilename env u =
     (let base = Base env (Path u)
      in if base = ''.'' \<or> base = ''/'' then defaultOutputFilename else base)"

text \<open>
  What the chunk goroutines share: the error channel \<open>errChan\<close> (buffered, capacity 1:
  empty or holding one error), whether \<open>cancel()\<close> has been called, the file \<open>fd\<close> and
  the progress counter \<open>downloaded\<close>.
\<close>

record Group =
  errChan :: "error option"
  cancelled :: bool
  fd :: File
  downloaded :: int

text \<open>
  The body of the goroutine started for chunk \<open>c\<close> with index \<open>idx\<close>: on an error of
  \<open>downloadChunk\<close> it sends the wrapped error unless the channel is full
  (\<open>select\<close> with \<open>default\<close>), then calls \<open>cancel()\<close>.
\<close>

definition goroutine :: "Env \<Rightarrow> string \<Rightarrow> string \<Rightarrow> Chunk \<Rightarrow> nat \<Rightarrow> Group \<Rightarrow> Group" where
  "goroutine env urlLink headers c idx g =
     (case downloadChunk env urlLink c (fd g) headers (downloaded g) of
        (err, fd1, downloaded1) \<Rightarrow>
          (let g1 = g\<lparr>fd := fd1, downloaded := downloaded1\<rparr>
           in case err of
                None \<Rightarrow> g1
              | Some e \<Rightarrow>
                  (let g2 = (case errChan g1 of
                               None \<Rightarrow> g1\<lparr>errChan := Some (ChunkFailed idx e)\<rparr>
                             | Some first \<Rightarrow> g1)
                   in g2\<lparr>cancelled := True\<rparr>)))"

text \<open>
  The goroutines are run one after the other, each to its end, in the order \<open>sched\<close>
  gives: the indices it lists (those that name a chunk, each once), then the chunks it
  does not list in index order. Every order of whole goroutines is a schedule; a finer
  interleaving of their steps is not modelled. The goroutine of \<open>showProgress\<close> only
  reads the counter and prints, and is left out.
\<close>

definition runOrder :: "nat list \<Rightarrow> nat \<Rightarrow> nat list" where
  "runOrder s n =
     (let listed = remdups (filter (\<lambda>i. i < n) s)
      in listed @ filter (\<lambda>i. i \<notin> set listed) [0 ..< n])"

definition fetchAll :: "Env \<Rightarrow> string \<Rightarrow> string \<Rightarrow> Chunk list \<Rightarrow> Group \<Rightarrow> Group" where
  "fetchAll env urlLink headers chunks g =
     fold (\<lambda>idx. goroutine env urlLink headers (chunks ! idx) idx)
       (runOrder (sched env) (length chunks)) g"

text \<open>
  The chunked part of \<open>downloadFile\<close>, from the creation of the temporary file on. The
  deferred function (\<open>fd.Close()\<close>, \<open>os.Remove(tmpFile)\<close>) is registered once the file is
  created and runs at every return after that: it is the \<open>os_Remove\<close> applied to the file
  system of each outcome. After \<open>wg.Wait()\<close> and \<open>close(errChan)\<close> the receive
  \<open><-errChan\<close> gives the buffered error, or \<open>nil\<close> when there is none.
\<close>

definition chunkedDownload ::
  "Env \<Rightarrow> string \<Rightarrow> string \<Rightarrow> string \<Rightarrow> int \<Rightarrow> FS \<Rightarrow> error option \<times> FS" where
  "chunkedDownload env urlLink filename headers fileSize fs =
     (let tmpFile = filename @ ''.tmp''
      in case os_Create env tmpFile fs of
           (Inl err, fs1) \<Rightarrow> (Some (CreateTmpFailed err), fs1)
         | (Inr file, fs1) \<Rightarrow>
             (let chunks = planChunks fileSize;
                  g = fetchAll env urlLink headers chunks
                        \<lparr>errChan = None, cancelled = False, fd = file, downloaded = 0\<rparr>;
                  fs2 = fs1\<lparr>files := (files fs1)(tmpFile \<mapsto> fd g)\<rparr>;
                  (err, fs3) =
                    (case errChan g of
                       Some err \<Rightarrow> (Some err, fs2)
                     | None \<Rightarrow>
                         (case os_Rename env tmpFile filename fs2 of
                            (Some err, fs3) \<Rightarrow> (Some (RenameFailed err), fs3)
                          | (None, fs3) \<Rightarrow> (None, fs3)))
              in (err, os_Remove tmpFile fs3)))"

text \<open>
  \<open>downloadFile(urlLink, filename, headers, verbose)\<close>: the error it returns and the file
  system afterwards. What it prints is left out.
\<close>

definition downloadFile ::
  "Env \<Rightarrow> string \<Rightarrow> string \<Rightarrow> string \<Rightarrow> bool \<Rightarrow> FS \<Rightarrow> error option \<times> FS" where
  "downloadFile env urlLink filename headers verbose fs =
     (case ParseRequestURI env urlLink of
        Inl err \<Rightarrow> (Some (InvalidURL err), fs)
      | Inr parsedURL \<Rightarrow>
          (let filename = (if filename = [] then getFilename env parsedURL else filename)
           in case checkRangeSupport env urlLink of
                Inl err \<Rightarrow> (Some err, fs)
              | Inr (supportRange, fileSize) \<Rightarrow>
                  if \<not> supportRange
                  then sequentialDownload env parsedURL filename headers verbose fs
                  else chunkedDownload env urlLink filename headers fileSize fs))"

section \<open>Notions for the statements about chunk lists\<close>


section \<open>Notions for the statements about writes\<close>

text \<open>
  \<open>chained cur ws\<close>: the writes \<open>ws\<close> follow one another from offset \<open>cur\<close>, each at
  the offset of the one before plus its length (in \<open>int64\<close>).
  \<open>written_before ws k\<close>: the number of bytes of the writes before the \<open>k\<close>-th.
  \<open>progress_of flt k ws\<close>: the number of bytes of those writes of \<open>ws\<close> that succeeded,
  where \<open>ws\<close> are the \<open>k\<close>-th and later write calls on a file with faults \<open>flt\<close>.
  \<open>bodyLength body\<close>: the number of bytes of a response body.
  \<open>increments body\<close>: the increments the read loop gets from the body, in order: the
  bytes of every read that returns some, up to and including the first read that returns
  an error.
  \<open>writesOf flt k cur bs\<close>: the writes that writing the increments \<open>bs\<close> one after the
  other from offset \<open>cur\<close> leaves in a file with faults \<open>flt\<close> that has had \<open>k\<close> write
  calls, when the first write that fails is the last.
\<close>

fun chained :: "int \<Rightarrow> (int \<times> string) list \<Rightarrow> bool" where
  "chained cur [] = True"
| "chained cur ((off, b) # ws) = (off = cur \<and> chained (i64 (cur + int (length b))) ws)"

definition written_before :: "(int \<times> string) list \<Rightarrow> nat \<Rightarrow> int" where
  "written_before ws k = (\<Sum>j<k. int (length (snd (ws ! j))))"

fun progress_of :: "(nat \<Rightarrow> (nat \<times> error) option) \<Rightarrow> nat \<Rightarrow> (int \<times> string) list \<Rightarrow> int" where
  "progress_of flt k [] = 0"
| "progress_of flt k ((off, b) # ws) =
     (if flt k = None then int (length b) else 0) + progress_of flt (Suc k) ws"

definition bodyLength :: "(string \<times> error option) list \<Rightarrow> int" where
  "bodyLength body = int (length (concat (map fst body)))"

fun increments :: "(string \<times> error option) list \<Rightarrow> string list" where
  "increments [] = []"
| "increments ((buf, err) # body) =
     (if buf \<noteq> [] then [buf] else []) @ (if err = None then increments body else [])"

fun writesOf ::
  "(nat \<Rightarrow> (nat \<times> error) option) \<Rightarrow> nat \<Rightarrow> int \<Rightarrow> string list \<Rightarrow> (int \<times> string) list" where
  "writesOf flt k cur [] = []"
| "writesOf flt k cur (b # bs) =
     (case flt k of
        None \<Rightarrow> (cur, b) # writesOf flt (Suc k) (i64 (cur + int (length b))) bs
      | Some (m, e) \<Rightarrow> [(cur, take m b)])"

text \<open>The file-system calls made from the state \<open>fs\<close> to the later state \<open>fs'\<close>.\<close>

definition calls_since :: "FS \<Rightarrow> FS \<Rightarrow> syscall list" where
  "calls_since fs fs' = drop (length (trace fs)) (trace fs')"

section \<open>Notions for the statements about the fetchers\<close>



section \<open>Concrete surroundings\<close>

text \<open>
  Surroundings to run the program in: a library whose URL parser accepts every string,
  whose header keys are canonical as written and whose file system never fails, over a
  server that answers \<open>HEAD\<close> with one response and every other request with another.
\<close>

definition testEnv :: "(Request \<Rightarrow> error + Response) \<Rightarrow> Env" where
  "testEnv server =
     \<lparr>ParseRequestURI = (\<lambda>u. Inr \<lparr>Path = ''/file.zip'', url_String = u\<rparr>),
      Base = (\<lambda>p. ''file.zip''),
      CanonicalMIMEHeaderKey = (\<lambda>k. k),
      Do = server,
      create_fault = (\<lambda>name. None),
      rename_fault = (\<lambda>oldpath newpath. None),
      write_fault = (\<lambda>name k. None),
      sched = []\<rparr>"

definition testURL :: string where
  "testURL = ''http://example.com/file.zip''"

definition acceptRanges :: Header where
  "acceptRanges = (\<lambda>k. if k = ''Accept-Ranges'' then [''bytes''] else [])"

definition headResponse :: "Header \<Rightarrow> int \<Rightarrow> Response" where
  "headResponse h len = \<lparr>StatusCode = 200, RespHeader = h, ContentLength = len, Body = []\<rparr>"

definition getResponse :: "int \<Rightarrow> (string \<times> error option) list \<Rightarrow> Response" where
  "getResponse code body =
     \<lparr>StatusCode = code, RespHeader = (\<lambda>k. []), ContentLength = int (length (concat (map fst body))),
      Body = body\<rparr>"

definition testServer :: "Response \<Rightarrow> Response \<Rightarrow> Request \<Rightarrow> error + Response" where
  "testServer headResp getResp req = Inr (if Method req = ''HEAD'' then headResp else getResp)"

definition emptyFile :: File where
  "emptyFile = \<lparr>wlog = [], pos = 0, wfault = (\<lambda>k. None)\<rparr>"

definition emptyFS :: FS where
  "emptyFS = \<lparr>files = Map.empty, trace = []\<rparr>"

text \<open>
  A server that refuses (status 403) every request that does not carry the two headers
  \<open>User-Agent: custom\<close> and \<open>X-Test: 1\<close>.
\<close>

definition strictServer :: "Request \<Rightarrow> error + Response" where
  "strictServer req =
     (if Header req ''User-Agent'' = [''custom''] \<and> Header req ''X-Test'' = [''1'']
      then testServer (headResponse acceptRanges 8) (getResponse 206 []) req
      else Inr (getResponse 403 []))"



lemmas fixture_defs = testEnv_def testURL_def acceptRanges_def headResponse_def getResponse_def
  testServer_def emptyFile_def emptyFS_def

section \<open>Properties of the chunk planner\<close>

lemma i64_id: "is_int64 x \<Longrightarrow> i64 x = x"
  by (simp add: i64_def is_int64_def)

lemma length_setChunk [simp]: "length (setChunk q i cs) = length cs"
  by (simp add: setChunk_def Let_def)

lemma length_fold_setChunk [simp]: "length (fold (setChunk q) is cs) = length cs"
  by (induction "is" arbitrary: cs) simp_all


















section \<open>Properties of the capability probe\<close>

text \<open>
  C3, as the code has it. For every probe response with status 200,
  \<open>checkRangeSupport\<close> returns \<open>supportsRange = true\<close> exactly when the first value of
  the response's \<open>Accept-Ranges\<close> header is the string \<open>bytes\<close> (no such header, or any
  other value, gives \<open>false\<close>), and returns as \<open>totalSize\<close> the response's
  \<open>ContentLength\<close> as it is. It does not turn an unknown length into 0: the value
  \<open>-1\<close>, which stands for a length the server did not declare, is returned as \<open>-1\<close>.
\<close>

theorem checkRangeSupport_ok:
  assumes "Do env (probeRequest url) = Inr resp" and "StatusCode resp = StatusOK"
  shows "checkRangeSupport env url =
           Inr (\<exists>vs. RespHeader resp (CanonicalMIMEHeaderKey env ''Accept-Ranges'') = ''bytes'' # vs,
                ContentLength resp)"
  using assms
  by (auto simp: checkRangeSupport_def Header_Get_def Let_def split: list.splits)

theorem checkRangeSupport_ok_witness:
  "Do (testEnv (testServer (headResponse acceptRanges 8) (getResponse 206 []))) (probeRequest testURL)
     = Inr (headResponse acceptRanges 8)
   \<and> StatusCode (headResponse acceptRanges 8) = StatusOK
   \<and> checkRangeSupport (testEnv (testServer (headResponse acceptRanges 8) (getResponse 206 []))) testURL
       = Inr (True, 8)"
  using checkRangeSupport_ok [of "testEnv (testServer (headResponse acceptRanges 8) (getResponse 206 []))"
      testURL "headResponse acceptRanges 8"]
  by (simp add: fixture_defs StatusOK_def probeRequest_def NewRequest_def)

text \<open>
  The claim's last part fails: a response with status 200 whose length is unknown
  (\<open>ContentLength = -1\<close>) gives \<open>totalSize = -1\<close>, not 0.
\<close>

theorem checkRangeSupport_no_length_counterexample:
  "Do (testEnv (testServer (headResponse acceptRanges (- 1)) (getResponse 206 []))) (probeRequest testURL)
     = Inr (headResponse acceptRanges (- 1))
   \<and> StatusCode (headResponse acceptRanges (- 1)) = StatusOK
   \<and> ContentLength (headResponse acceptRanges (- 1)) = - 1
   \<and> checkRangeSupport (testEnv (testServer (headResponse acceptRanges (- 1)) (getResponse 206 []))) testURL
       = Inr (True, - 1)"
  by (simp add: checkRangeSupport_def probeRequest_def NewRequest_def fixture_defs
      StatusOK_def Header_Get_def)

section \<open>Properties of the chunk fetcher\<close>

text \<open>
  C5. \<open>downloadChunk\<close> returns no error only when the server answered its request with
  status 206; on an answer with any other status it returns the error that carries that
  status code, and the file and the progress counter are as they were: nothing is written.
\<close>

theorem downloadChunk_status:
  "(fst (downloadChunk env url chunk file headers counter) = None \<longrightarrow>
      (\<exists>resp. Do env (chunkRequest env url chunk headers) = Inr resp
           \<and> StatusCode resp = StatusPartialContent))
   \<and> (\<forall>resp. Do env (chunkRequest env url chunk headers) = Inr resp
           \<and> StatusCode resp \<noteq> StatusPartialContent \<longrightarrow>
         downloadChunk env url chunk file headers counter
           = (Some (BadChunkStatus (StatusCode resp)), file, counter))"
  by (auto simp: downloadChunk_def Let_def split: sum.splits if_splits)

theorem downloadChunk_status_witness:
  "Do (testEnv (testServer (headResponse acceptRanges 8) (getResponse 200 [(''abcdefgh'', None)])))
      (chunkRequest (testEnv (testServer (headResponse acceptRanges 8) (getResponse 200 [(''abcdefgh'', None)])))
         testURL \<lparr>Start = 0, End = 1\<rparr> [])
     = Inr (getResponse 200 [(''abcdefgh'', None)])
   \<and> StatusCode (getResponse 200 [(''abcdefgh'', None)]) \<noteq> StatusPartialContent
   \<and> downloadChunk (testEnv (testServer (headResponse acceptRanges 8) (getResponse 200 [(''abcdefgh'', None)])))
        testURL \<lparr>Start = 0, End = 1\<rparr> emptyFile [] 0
      = (Some (BadChunkStatus 200), emptyFile, 0)"
proof -
  let ?env = "testEnv (testServer (headResponse acceptRanges 8) (getResponse 200 [(''abcdefgh'', None)]))"
  have d: "Do ?env (chunkRequest ?env testURL \<lparr>Start = 0, End = 1\<rparr> [])
     = Inr (getResponse 200 [(''abcdefgh'', None)])"
    by (simp add: testEnv_def testServer_def chunkRequest_def NewRequest_def addHeaders_def Let_def)
  have s: "StatusCode (getResponse 200 [(''abcdefgh'', None)]) \<noteq> StatusPartialContent"
    by (simp add: getResponse_def StatusPartialContent_def)
  have c: "StatusCode (getResponse 200 [(''abcdefgh'', None)]) = 200"
    by (simp add: getResponse_def)
  from downloadChunk_status [of ?env testURL "\<lparr>Start = 0, End = 1\<rparr>" emptyFile "[]" 0] d s
  have "downloadChunk ?env testURL \<lparr>Start = 0, End = 1\<rparr> emptyFile [] 0
      = (Some (BadChunkStatus (StatusCode (getResponse 200 [(''abcdefgh'', None)]))), emptyFile, 0)"
    by blast
  with d s c show ?thesis by simp
qed

lemma i64_add_left: "i64 (i64 x + y) = i64 (x + y)"
proof -
  have "i64 x + y + 2 ^ 63 = (x + 2 ^ 63) mod 2 ^ 64 + y"
    by (simp add: i64_def)
  then have "(i64 x + y + 2 ^ 63) mod 2 ^ 64 = ((x + 2 ^ 63) mod 2 ^ 64 + y) mod 2 ^ 64"
    by (simp only:)
  also have "\<dots> = (x + 2 ^ 63 + y) mod 2 ^ 64"
    by (rule mod_add_left_eq)
  also have "\<dots> = (x + y + 2 ^ 63) mod 2 ^ 64"
    by (simp only: add.assoc add.commute [of y])
  finally show ?thesis unfolding i64_def [of "i64 x + y"] i64_def [of "x + y"] by (simp only:)
qed

lemma is_int64_i64: "is_int64 (i64 x)"
proof -
  have "0 \<le> (x + 2 ^ 63) mod (2 ^ 64 :: int)" "(x + 2 ^ 63) mod (2 ^ 64 :: int) < 2 ^ 64"
    by simp_all
  then show ?thesis by (simp add: is_int64_def i64_def)
qed

lemma chunkLoop_writes:
  "chunkLoop body cur file dl = (err, file', dl') \<Longrightarrow> is_int64 dl \<Longrightarrow>
   \<exists>ws. wlog file' = wlog file @ ws \<and> wfault file' = wfault file \<and> chained cur ws
      \<and> dl' = i64 (dl + progress_of (wfault file) (length (wlog file)) ws)"
proof (induction body arbitrary: cur "file" dl)
  case Nil
  then show ?case by (auto simp: i64_id intro: exI [of _ "[]"])
next
  case (Cons ev body)
  obtain buf rerr where ev: "ev = (buf, rerr)" by (cases ev)
  show ?case
  proof (cases "length buf > 0")
    case False
    show ?thesis
    proof (cases rerr)
      case None
      with False ev Cons.prems have "chunkLoop body cur file dl = (err, file', dl')" by simp
      from Cons.IH [OF this Cons.prems(2)] show ?thesis .
    next
      case (Some e)
      with False ev Cons.prems have "file' = file" "dl' = dl" by (auto split: if_splits)
      then show ?thesis using Cons.prems(2) by (auto simp: i64_id intro: exI [of _ "[]"])
    qed
  next
    case True
    show ?thesis
    proof (cases "wfault file (length (wlog file))")
      case (Some me)
      obtain m e where me: "me = (m, e)" by (cases me)
      with Some True ev Cons.prems
      have "file' = file\<lparr>wlog := wlog file @ [(cur, take m buf)]\<rparr>" "dl' = dl"
        by (auto simp: WriteAt_def)
      then show ?thesis using Some Cons.prems(2)
        by (auto simp: i64_id intro!: exI [of _ "[(cur, take m buf)]"])
    next
      case None
      let ?f1 = "file\<lparr>wlog := wlog file @ [(cur, buf)]\<rparr>"
      let ?d1 = "i64 (dl + int (length buf))"
      have w: "WriteAt buf cur file = (length buf, None, ?f1)"
        using None by (simp add: WriteAt_def)
      show ?thesis
      proof (cases rerr)
        case (Some e)
        with True ev w Cons.prems have "file' = ?f1" "dl' = ?d1"
          by (auto simp: Let_def split: if_splits)
        then show ?thesis using None
          by (auto intro!: exI [of _ "[(cur, buf)]"])
      next
        case rn: None
        with True ev w Cons.prems
        have "chunkLoop body (i64 (cur + int (length buf))) ?f1 ?d1 = (err, file', dl')"
          by (simp add: Let_def)
        from Cons.IH [OF this is_int64_i64]
        obtain ws where ws: "wlog file' = wlog ?f1 @ ws" "wfault file' = wfault ?f1"
          "chained (i64 (cur + int (length buf))) ws"
          "dl' = i64 (?d1 + progress_of (wfault ?f1) (length (wlog ?f1)) ws)"
          by blast
        have "dl' = i64 (dl + progress_of (wfault file) (length (wlog file)) ((cur, buf) # ws))"
          using ws(4) None by (simp add: i64_add_left add.assoc)
        then show ?thesis using ws(1-3)
          by (auto intro!: exI [of _ "(cur, buf) # ws"])
      qed
    qed
  qed
qed


lemma written_before_Cons:
  "written_before ((off, b) # ws) (Suc k) = int (length b) + written_before ws k"
  by (simp add: written_before_def sum.lessThan_Suc_shift del: sum.lessThan_Suc)

lemma chained_nth:
  "chained cur ws \<Longrightarrow> is_int64 cur \<Longrightarrow> k < length ws \<Longrightarrow>
   fst (ws ! k) = i64 (cur + written_before ws k)"
proof (induction ws arbitrary: cur k)
  case Nil
  then show ?case by simp
next
  case (Cons w ws)
  obtain off b where w: "w = (off, b)" by (cases w)
  show ?case
  proof (cases k)
    case 0
    then show ?thesis using Cons.prems w by (simp add: written_before_def i64_id)
  next
    case (Suc k')
    have "fst (ws ! k') = i64 (i64 (cur + int (length b)) + written_before ws k')"
      using Cons.prems w Suc by (intro Cons.IH) (simp_all add: is_int64_i64)
    then show ?thesis
      using w Suc by (simp add: i64_add_left written_before_Cons add.assoc)
  qed
qed

lemma bodyLength_Cons: "bodyLength ((buf, rerr) # body) = int (length buf) + bodyLength body"
  by (simp add: bodyLength_def)

lemma bodyLength_nonneg: "0 \<le> bodyLength body"
  by (simp add: bodyLength_def)

lemma chunkLoop_no_bytes:
  "bodyLength body = 0 \<Longrightarrow> chunkLoop body cur f dl = (err, f', dl') \<Longrightarrow> f' = f"
proof (induction body arbitrary: err f' dl')
  case Nil
  then show ?case by simp
next
  case (Cons ev body)
  obtain buf rerr where ev: "ev = (buf, rerr)" by (cases ev)
  have "int (length buf) + bodyLength body = 0"
    using Cons.prems(1) ev by (simp add: bodyLength_Cons)
  then have "int (length buf) = 0 \<and> bodyLength body = 0"
    using bodyLength_nonneg [of body] by linarith
  then have b: "buf = []" "bodyLength body = 0" by simp_all
  show ?case
  proof (cases rerr)
    case None
    then show ?thesis using Cons.prems(2) ev b Cons.IH by simp
  next
    case (Some e)
    then show ?thesis using Cons.prems(2) ev b by (auto split: if_splits)
  qed
qed

lemma chunkLoop_within:
  "chunkLoop body cur f dl = (err, f', dl') \<Longrightarrow>
   lo \<le> cur \<Longrightarrow> cur + bodyLength body \<le> hi + 1 \<Longrightarrow> - (2 ^ 63) \<le> lo \<Longrightarrow> hi \<le> 2 ^ 63 - 1 \<Longrightarrow>
   \<exists>ws. wlog f' = wlog f @ ws
      \<and> (\<forall>(off, b) \<in> set ws. lo \<le> off \<and> off + int (length b) \<le> hi + 1)"
proof (induction body arbitrary: cur f dl)
  case Nil
  then show ?case by (auto intro: exI [of _ "[]"])
next
  case (Cons ev body)
  obtain buf rerr where ev: "ev = (buf, rerr)" by (cases ev)
  have bl: "cur + int (length buf) + bodyLength body \<le> hi + 1"
    using Cons.prems(3) ev by (simp add: bodyLength_Cons)
  have bn: "0 \<le> bodyLength body" by (rule bodyLength_nonneg)
  show ?case
  proof (cases "length buf > 0")
    case False
    show ?thesis
    proof (cases rerr)
      case None
      with False ev Cons.prems(1) have "chunkLoop body cur f dl = (err, f', dl')" by simp
      moreover have "cur + bodyLength body \<le> hi + 1" using bl by simp
      ultimately show ?thesis using Cons.IH Cons.prems(2,4,5) by blast
    next
      case (Some e)
      with False ev Cons.prems(1) have "f' = f" by (auto split: if_splits)
      then show ?thesis by (auto intro: exI [of _ "[]"])
    qed
  next
    case True
    show ?thesis
    proof (cases "wfault f (length (wlog f))")
      case (Some me)
      obtain m e where me: "me = (m, e)" by (cases me)
      with Some True ev Cons.prems(1)
      have "f' = f\<lparr>wlog := wlog f @ [(cur, take m buf)]\<rparr>"
        by (auto simp: WriteAt_def)
      moreover have "cur + int (length (take m buf)) \<le> hi + 1"
        using bl bn by simp
      ultimately show ?thesis using Cons.prems(2)
        by (auto intro!: exI [of _ "[(cur, take m buf)]"])
    next
      case None
      let ?f1 = "f\<lparr>wlog := wlog f @ [(cur, buf)]\<rparr>"
      let ?d1 = "i64 (dl + int (length buf))"
      have w: "WriteAt buf cur f = (length buf, None, ?f1)"
        using None by (simp add: WriteAt_def)
      have here: "lo \<le> cur \<and> cur + int (length buf) \<le> hi + 1"
        using bl bn Cons.prems(2) by simp
      show ?thesis
      proof (cases rerr)
        case (Some e)
        with True ev w Cons.prems(1) have "f' = ?f1"
          by (auto simp: Let_def split: if_splits)
        then show ?thesis using here
          by (auto intro!: exI [of _ "[(cur, buf)]"])
      next
        case rn: None
        with True ev w Cons.prems(1)
        have loop: "chunkLoop body (i64 (cur + int (length buf))) ?f1 ?d1 = (err, f', dl')"
          by (simp add: Let_def)
        show ?thesis
        proof (cases "bodyLength body = 0")
          case True
          from chunkLoop_no_bytes [OF True loop] have "f' = ?f1" .
          then show ?thesis using here
            by (auto intro!: exI [of _ "[(cur, buf)]"])
        next
          case False
          then have "cur + int (length buf) \<le> 2 ^ 63 - 1"
            using bl bn Cons.prems(5) by linarith
          moreover have "- (2 ^ 63) \<le> cur + int (length buf)"
            using Cons.prems(2,4) by linarith
          ultimately have id: "i64 (cur + int (length buf)) = cur + int (length buf)"
            by (intro i64_id) (simp add: is_int64_def)
          have "\<exists>ws. wlog f' = wlog ?f1 @ ws
              \<and> (\<forall>(off, b) \<in> set ws. lo \<le> off \<and> off + int (length b) \<le> hi + 1)"
            using loop bl Cons.prems(2,4,5) unfolding id
            by (intro Cons.IH [of "cur + int (length buf)" ?f1 ?d1]) simp_all
          then obtain ws where "wlog f' = wlog ?f1 @ ws"
            "\<forall>(off, b) \<in> set ws. lo \<le> off \<and> off + int (length b) \<le> hi + 1" by blast
          then show ?thesis using here
            by (auto intro!: exI [of _ "(cur, buf) # ws"])
        qed
      qed
    qed
  qed
qed


lemma length_writesOf: "length (writesOf flt k cur bs) \<le> length bs"
  by (induction bs arbitrary: k cur) (auto split: option.splits)

lemma writesOf_data:
  "j < length (writesOf flt k cur bs) \<Longrightarrow>
   snd (writesOf flt k cur bs ! j)
     = (case flt (k + j) of None \<Rightarrow> bs ! j | Some (m, e) \<Rightarrow> take m (bs ! j))"
proof (induction bs arbitrary: k cur j)
  case Nil
  then show ?case by simp
next
  case (Cons b bs)
  show ?case
  proof (cases "flt k")
    case (Some me)
    with Cons.prems show ?thesis by (cases me) simp
  next
    case None
    show ?thesis
    proof (cases j)
      case 0
      with None show ?thesis by simp
    next
      case (Suc j')
      with None Cons.prems have "j' < length (writesOf flt (Suc k) (i64 (cur + int (length b))) bs)"
        by simp
      from Cons.IH [OF this] None Suc show ?thesis
        by (simp split: option.splits prod.splits)
    qed
  qed
qed

lemma writesOf_before_last:
  "Suc j < length (writesOf flt k cur bs) \<Longrightarrow> flt (k + j) = None"
proof (induction bs arbitrary: k cur j)
  case Nil
  then show ?case by simp
next
  case (Cons b bs)
  show ?case
  proof (cases "flt k")
    case (Some me)
    with Cons.prems show ?thesis by (cases me) simp
  next
    case None
    show ?thesis
    proof (cases j)
      case 0
      with None show ?thesis by simp
    next
      case (Suc j')
      with None Cons.prems
      have "Suc j' < length (writesOf flt (Suc k) (i64 (cur + int (length b))) bs)" by simp
      from Cons.IH [OF this] Suc show ?thesis by simp
    qed
  qed
qed

lemma writesOf_short:
  "length (writesOf flt k cur bs) < length bs \<Longrightarrow>
   writesOf flt k cur bs \<noteq> [] \<and> flt (k + (length (writesOf flt k cur bs) - 1)) \<noteq> None"
proof (induction bs arbitrary: k cur)
  case Nil
  then show ?case by simp
next
  case (Cons b bs)
  show ?case
  proof (cases "flt k")
    case (Some me)
    then show ?thesis by (cases me) simp
  next
    case None
    let ?r = "writesOf flt (Suc k) (i64 (cur + int (length b))) bs"
    from None Cons.prems have "length ?r < length bs" by simp
    from Cons.IH [OF this] have r: "?r \<noteq> []" "flt (Suc k + (length ?r - 1)) \<noteq> None"
      by simp_all
    from r(1) have "Suc k + (length ?r - 1) = k + length ?r" by (cases ?r) simp_all
    with r None show ?thesis by simp
  qed
qed

lemma chunkLoop_writesOf:
  "chunkLoop body cur f dl = (err, f', dl') \<Longrightarrow>
   wlog f' = wlog f @ writesOf (wfault f) (length (wlog f)) cur (increments body)"
proof (induction body arbitrary: cur f dl)
  case Nil
  then show ?case by simp
next
  case (Cons ev body)
  obtain buf rerr where ev: "ev = (buf, rerr)" by (cases ev)
  show ?case
  proof (cases "length buf > 0")
    case False
    show ?thesis
    proof (cases rerr)
      case None
      with False ev Cons.prems have "chunkLoop body cur f dl = (err, f', dl')" by simp
      from Cons.IH [OF this] False ev None show ?thesis by simp
    next
      case (Some e)
      with False ev Cons.prems have "f' = f" by (auto split: if_splits)
      then show ?thesis using False ev Some by simp
    qed
  next
    case True
    then have ne: "buf \<noteq> []" by simp
    show ?thesis
    proof (cases "wfault f (length (wlog f))")
      case (Some me)
      obtain m e where me: "me = (m, e)" by (cases me)
      with Some True ev Cons.prems
      have "f' = f\<lparr>wlog := wlog f @ [(cur, take m buf)]\<rparr>"
        by (auto simp: WriteAt_def)
      then show ?thesis using Some me ev ne by simp
    next
      case None
      let ?f1 = "f\<lparr>wlog := wlog f @ [(cur, buf)]\<rparr>"
      let ?d1 = "i64 (dl + int (length buf))"
      have w: "WriteAt buf cur f = (length buf, None, ?f1)"
        using None by (simp add: WriteAt_def)
      show ?thesis
      proof (cases rerr)
        case (Some e)
        with True ev w Cons.prems have "f' = ?f1"
          by (auto simp: Let_def split: if_splits)
        then show ?thesis using None ev ne Some by simp
      next
        case rn: None
        with True ev w Cons.prems
        have "chunkLoop body (i64 (cur + int (length buf))) ?f1 ?d1 = (err, f', dl')"
          by (simp add: Let_def)
        from Cons.IH [OF this] show ?thesis using None ev ne rn by simp
      qed
    qed
  qed
qed

lemma downloadChunk_two_reads:
  "downloadChunk (testEnv (testServer (headResponse acceptRanges 8)
        (getResponse 206 [(''ab'', None), (''c'', Some EOF)])))
     testURL \<lparr>Start = 4, End = 6\<rparr> emptyFile [] 10
   = (None, emptyFile\<lparr>wlog := [(4, ''ab''), (6, ''c'')]\<rparr>, 13)"
  by (simp add: downloadChunk_def chunkRequest_def NewRequest_def addHeaders_def Let_def
      fixture_defs StatusPartialContent_def WriteAt_def i64_def)

text \<open>
  C7. In a run of \<open>downloadChunk\<close> that reaches the read loop (the server answered with
  status 206), the writes \<open>ws\<close> it adds to the file are the increments read from the body,
  one write for each increment in order: the \<open>k\<close>-th write is made at the offset
  \<open>chunk.Start\<close> plus the number of bytes this run wrote before (an \<open>int64\<close> sum), and,
  when it succeeds, writes the \<open>k\<close>-th increment whole. Only a write that fails ends the
  writing before every increment is written; that write is the last, and it leaves a
  beginning of its increment. The progress counter ends as its initial value plus the
  sizes of the writes that succeeded: each successful write of \<open>n\<close> bytes adds exactly \<open>n\<close>
  (\<open>atomic.AddInt64\<close>, one step of the model).
\<close>

theorem downloadChunk_offsets_progress:
  assumes "Do env (chunkRequest env url chunk headers) = Inr resp"
    and "StatusCode resp = StatusPartialContent"
    and "is_int64 (Start chunk)" and "is_int64 counter"
    and "downloadChunk env url chunk f headers counter = (err, f', counter')"
  shows "\<exists>ws. wlog f' = wlog f @ ws
           \<and> length ws \<le> length (increments (Body resp))
           \<and> (length ws < length (increments (Body resp)) \<longrightarrow>
                 ws \<noteq> [] \<and> wfault f (length (wlog f) + (length ws - 1)) \<noteq> None)
           \<and> (\<forall>k. Suc k < length ws \<longrightarrow> wfault f (length (wlog f) + k) = None)
           \<and> (\<forall>k<length ws.
                 fst (ws ! k) = i64 (Start chunk + written_before ws k)
                 \<and> snd (ws ! k) =
                     (case wfault f (length (wlog f) + k) of
                        None \<Rightarrow> increments (Body resp) ! k
                      | Some (m, e) \<Rightarrow> take m (increments (Body resp) ! k)))
           \<and> counter' = i64 (counter + progress_of (wfault f) (length (wlog f)) ws)"
proof -
  let ?ws = "writesOf (wfault f) (length (wlog f)) (Start chunk) (increments (Body resp))"
  have loop: "chunkLoop (Body resp) (Start chunk) f counter = (err, f', counter')"
    using assms(1,2,5) by (simp add: downloadChunk_def Let_def)
  have w: "wlog f' = wlog f @ ?ws" by (rule chunkLoop_writesOf [OF loop])
  from chunkLoop_writes [OF loop assms(4)]
  obtain ws where ws: "wlog f' = wlog f @ ws" "chained (Start chunk) ws"
    "counter' = i64 (counter + progress_of (wfault f) (length (wlog f)) ws)" by blast
  from w ws(1) have eq: "ws = ?ws" by simp
  have off: "\<forall>k<length ?ws. fst (?ws ! k) = i64 (Start chunk + written_before ?ws k)"
    using chained_nth [OF ws(2) assms(3)] unfolding eq by blast
  have dat: "\<forall>k<length ?ws. snd (?ws ! k) =
                     (case wfault f (length (wlog f) + k) of
                        None \<Rightarrow> increments (Body resp) ! k
                      | Some (m, e) \<Rightarrow> take m (increments (Body resp) ! k))"
    using writesOf_data by blast
  have bl: "\<forall>k. Suc k < length ?ws \<longrightarrow> wfault f (length (wlog f) + k) = None"
    using writesOf_before_last by blast
  have sh: "length ?ws < length (increments (Body resp)) \<longrightarrow>
                 ?ws \<noteq> [] \<and> wfault f (length (wlog f) + (length ?ws - 1)) \<noteq> None"
    using writesOf_short by blast
  have le: "length ?ws \<le> length (increments (Body resp))" by (rule length_writesOf)
  have c: "counter' = i64 (counter + progress_of (wfault f) (length (wlog f)) ?ws)"
    using ws(3) unfolding eq .
  from w le sh bl off dat c show ?thesis
    by (intro exI [of _ ?ws]) simp
qed


theorem downloadChunk_offsets_progress_witness:
  "downloadChunk (testEnv (testServer (headResponse acceptRanges 8)
        (getResponse 206 [(''ab'', None), (''c'', Some EOF)])))
     testURL \<lparr>Start = 4, End = 6\<rparr> emptyFile [] 10
   = (None, emptyFile\<lparr>wlog := [(4, ''ab''), (6, ''c'')]\<rparr>, 13)
   \<and> increments [(''ab'', None), (''c'', Some EOF)] = [''ab'', ''c'']
   \<and> (\<exists>ws. wlog (emptyFile\<lparr>wlog := [(4, ''ab''), (6, ''c'')]\<rparr>) = wlog emptyFile @ ws
        \<and> fst (ws ! 0) = i64 (4 + written_before ws 0) \<and> snd (ws ! 0) = ''ab''
        \<and> fst (ws ! 1) = i64 (4 + written_before ws 1) \<and> snd (ws ! 1) = ''c''
        \<and> (13::int) = i64 (10 + progress_of (wfault emptyFile) (length (wlog emptyFile)) ws))"
proof -
  let ?body = "[(''ab'', None), (''c'', Some EOF)]"
  let ?resp = "getResponse 206 ?body"
  let ?env = "testEnv (testServer (headResponse acceptRanges 8) ?resp)"
  let ?c = "\<lparr>Start = 4, End = 6\<rparr>"
  have d: "Do ?env (chunkRequest ?env testURL ?c []) = Inr ?resp"
    by (simp add: testEnv_def testServer_def chunkRequest_def NewRequest_def addHeaders_def Let_def)
  have s: "StatusCode ?resp = StatusPartialContent"
    by (simp add: getResponse_def StatusPartialContent_def)
  have i: "is_int64 (Start ?c)" "is_int64 10" by (simp_all add: is_int64_def)
  have inc: "increments ?body = [''ab'', ''c'']" by simp
  then have inc': "increments (Body ?resp) = [''ab'', ''c'']" by (simp add: getResponse_def)
  note r = downloadChunk_two_reads
  from downloadChunk_offsets_progress [OF d s i r]
  obtain ws where ws: "wlog (emptyFile\<lparr>wlog := [(4, ''ab''), (6, ''c'')]\<rparr>) = wlog emptyFile @ ws"
    "\<forall>k<length ws.
        fst (ws ! k) = i64 (Start ?c + written_before ws k)
        \<and> snd (ws ! k) =
            (case wfault emptyFile (length (wlog emptyFile) + k) of
               None \<Rightarrow> increments (Body ?resp) ! k
             | Some (m, e) \<Rightarrow> take m (increments (Body ?resp) ! k))"
    "(13::int) = i64 (10 + progress_of (wfault emptyFile) (length (wlog emptyFile)) ws)"
    by blast
  from ws(1) have l: "length ws = 2" by (auto simp: emptyFile_def)
  have nf: "wfault emptyFile k = None" for k by (simp add: emptyFile_def)
  from ws(2) l have "fst (ws ! 0) = i64 (4 + written_before ws 0) \<and> snd (ws ! 0) = ''ab''"
    "fst (ws ! 1) = i64 (4 + written_before ws 1) \<and> snd (ws ! 1) = ''c''"
    by (simp_all add: nf inc')
  with r inc ws(1,3) show ?thesis by blast
qed

text \<open>
  C6, as the code has it. \<open>downloadChunk\<close> writes whatever body the server returns, from
  \<open>chunk.Start\<close> on: when the body has at most \<open>End - Start + 1\<close> bytes, all bytes it writes
  land within the chunk's span \<open>Start .. End\<close>, and so outside the span of every chunk
  disjoint from it; a longer body is written past \<open>End\<close>.
\<close>

theorem downloadChunk_within_span:
  assumes "Do env (chunkRequest env url chunk headers) = Inr resp"
    and "StatusCode resp = StatusPartialContent"
    and "is_int64 (Start chunk)" and "is_int64 (End chunk)"
    and "bodyLength (Body resp) \<le> End chunk - Start chunk + 1"
    and "downloadChunk env url chunk f headers counter = (err, f', counter')"
  shows "\<exists>ws. wlog f' = wlog f @ ws
           \<and> (\<forall>(off, b) \<in> set ws.
                 {off ..< off + int (length b)} \<subseteq> span chunk
                 \<and> (\<forall>other. span other \<inter> span chunk = {} \<longrightarrow>
                        {off ..< off + int (length b)} \<inter> span other = {}))"
proof -
  have "chunkLoop (Body resp) (Start chunk) f counter = (err, f', counter')"
    using assms(1,2,6) by (simp add: downloadChunk_def Let_def)
  moreover have "Start chunk + bodyLength (Body resp) \<le> End chunk + 1"
    using assms(5) by simp
  moreover have "- (2 ^ 63) \<le> Start chunk" "End chunk \<le> 2 ^ 63 - 1"
    using assms(3,4) by (simp_all add: is_int64_def)
  ultimately obtain ws where ws: "wlog f' = wlog f @ ws"
    "\<forall>(off, b) \<in> set ws. Start chunk \<le> off \<and> off + int (length b) \<le> End chunk + 1"
    using chunkLoop_within [of "Body resp" "Start chunk" f counter err f' counter'
        "Start chunk" "End chunk"] by auto
  from ws(2) have "\<forall>(off, b) \<in> set ws. {off ..< off + int (length b)} \<subseteq> span chunk"
    by (auto simp: span_def)
  then have "\<forall>(off, b) \<in> set ws.
      {off ..< off + int (length b)} \<subseteq> span chunk
      \<and> (\<forall>other. span other \<inter> span chunk = {} \<longrightarrow>
             {off ..< off + int (length b)} \<inter> span other = {})"
    by blast
  with ws(1) show ?thesis by blast
qed

theorem downloadChunk_within_span_witness:
  "downloadChunk (testEnv (testServer (headResponse acceptRanges 8)
        (getResponse 206 [(''ab'', None), (''c'', Some EOF)])))
     testURL \<lparr>Start = 4, End = 6\<rparr> emptyFile [] 10
   = (None, emptyFile\<lparr>wlog := [(4, ''ab''), (6, ''c'')]\<rparr>, 13)
   \<and> bodyLength [(''ab'', None), (''c'', Some EOF)] \<le> 6 - 4 + 1
   \<and> (\<exists>ws. wlog (emptyFile\<lparr>wlog := [(4, ''ab''), (6, ''c'')]\<rparr>) = wlog emptyFile @ ws
        \<and> {fst (ws ! 0) ..< fst (ws ! 0) + int (length (snd (ws ! 0)))} \<subseteq> {4 .. 6}
        \<and> {fst (ws ! 1) ..< fst (ws ! 1) + int (length (snd (ws ! 1)))} \<subseteq> {4 .. 6})"
proof -
  let ?resp = "getResponse 206 [(''ab'', None), (''c'', Some EOF)]"
  let ?env = "testEnv (testServer (headResponse acceptRanges 8) ?resp)"
  let ?c = "\<lparr>Start = 4, End = 6\<rparr>"
  have d: "Do ?env (chunkRequest ?env testURL ?c []) = Inr ?resp"
    by (simp add: testEnv_def testServer_def chunkRequest_def NewRequest_def addHeaders_def Let_def)
  have s: "StatusCode ?resp = StatusPartialContent"
    by (simp add: getResponse_def StatusPartialContent_def)
  have i: "is_int64 (Start ?c)" "is_int64 (End ?c)" by (simp_all add: is_int64_def)
  have b: "bodyLength [(''ab'', None), (''c'', Some EOF)] \<le> 6 - 4 + 1"
    by (simp add: bodyLength_def)
  then have b': "bodyLength (Body ?resp) \<le> End ?c - Start ?c + 1"
    by (simp add: getResponse_def)
  note r = downloadChunk_two_reads
  from downloadChunk_within_span [OF d s i b' r]
  obtain ws where ws: "wlog (emptyFile\<lparr>wlog := [(4, ''ab''), (6, ''c'')]\<rparr>) = wlog emptyFile @ ws"
    "\<forall>(off, b) \<in> set ws. {off ..< off + int (length b)} \<subseteq> span ?c"
    by fast
  from ws(1) have l: "length ws = 2" by (auto simp: emptyFile_def)
  then have "ws ! 0 \<in> set ws" "ws ! 1 \<in> set ws" by simp_all
  with ws(2) have
    "{fst (ws ! 0) ..< fst (ws ! 0) + int (length (snd (ws ! 0)))} \<subseteq> {4 .. 6}"
    "{fst (ws ! 1) ..< fst (ws ! 1) + int (length (snd (ws ! 1)))} \<subseteq> {4 .. 6}"
    by (auto simp: span_def split: prod.splits)
  with r b ws(1) show ?thesis by blast
qed

text \<open>
  The claim fails for every body: for the chunk \<open>0 .. 1\<close> and a 206 response with the
  three bytes \<open>abc\<close>, the fetcher writes them at offset 0, and offset 2 is outside the span.
\<close>

theorem downloadChunk_long_body_counterexample:
  "downloadChunk (testEnv (testServer (headResponse acceptRanges 8)
        (getResponse 206 [(''abc'', Some EOF)])))
     testURL \<lparr>Start = 0, End = 1\<rparr> emptyFile [] 0
   = (None, emptyFile\<lparr>wlog := [(0, ''abc'')]\<rparr>, 3)
   \<and> \<not> {0 ..< 0 + int (length ''abc'')} \<subseteq> span \<lparr>Start = 0, End = 1\<rparr>"
proof -
  have "(2::int) \<in> {0 ..< 0 + int (length ''abc'')}" "(2::int) \<notin> span \<lparr>Start = 0, End = 1\<rparr>"
    by (simp_all add: span_def)
  then have "\<not> {0 ..< 0 + int (length ''abc'')} \<subseteq> span \<lparr>Start = 0, End = 1\<rparr>" by blast
  moreover have "downloadChunk (testEnv (testServer (headResponse acceptRanges 8)
        (getResponse 206 [(''abc'', Some EOF)])))
     testURL \<lparr>Start = 0, End = 1\<rparr> emptyFile [] 0
   = (None, emptyFile\<lparr>wlog := [(0, ''abc'')]\<rparr>, 3)"
    by (simp add: downloadChunk_def chunkRequest_def NewRequest_def addHeaders_def Let_def
      fixture_defs StatusPartialContent_def WriteAt_def i64_def)
  ultimately show ?thesis by blast
qed

section \<open>Properties of the sequential download\<close>

text \<open>
  C10. When the server answers the sequential request with a status other than 200,
  \<open>sequentialDownload\<close> returns the error carrying that status and leaves the file system
  as it was: \<open>os.Create\<close> is not called, so no file is created or truncated.
\<close>

theorem sequentialDownload_bad_status:
  assumes "Do env (sequentialRequest env parsedURL headers) = Inr resp"
    and "StatusCode resp \<noteq> StatusOK"
  shows "sequentialDownload env parsedURL filename headers verbose fs
           = (Some (BadStatus (StatusCode resp)), fs)"
  using assms by (simp add: sequentialDownload_def Let_def)

theorem sequentialDownload_bad_status_witness:
  "Do (testEnv (testServer (headResponse acceptRanges 8) (getResponse 404 [])))
      (sequentialRequest (testEnv (testServer (headResponse acceptRanges 8) (getResponse 404 [])))
         \<lparr>Path = ''/file.zip'', url_String = testURL\<rparr> [])
     = Inr (getResponse 404 [])
   \<and> StatusCode (getResponse 404 []) \<noteq> StatusOK
   \<and> sequentialDownload (testEnv (testServer (headResponse acceptRanges 8) (getResponse 404 [])))
        \<lparr>Path = ''/file.zip'', url_String = testURL\<rparr> ''file.zip'' [] True emptyFS
      = (Some (BadStatus 404), emptyFS)"
proof -
  let ?env = "testEnv (testServer (headResponse acceptRanges 8) (getResponse 404 []))"
  let ?u = "\<lparr>Path = ''/file.zip'', url_String = testURL\<rparr>"
  have d: "Do ?env (sequentialRequest ?env ?u []) = Inr (getResponse 404 [])"
    by (simp add: testEnv_def testServer_def sequentialRequest_def NewRequest_def addHeaders_def)
  have s: "StatusCode (getResponse 404 []) \<noteq> StatusOK"
    by (simp add: getResponse_def StatusOK_def)
  have c: "StatusCode (getResponse 404 []) = 404"
    by (simp add: getResponse_def)
  from sequentialDownload_bad_status [OF d s, of "''file.zip''" True emptyFS] d s c
  show ?thesis by simp
qed


section \<open>Runs in the concrete surroundings\<close>

lemma Method_addPair [simp]: "Method (addPair env pair req) = Method req"
  by (simp add: addPair_def Let_def)

lemma Method_fold_addPair [simp]: "Method (fold (addPair env) pairs req) = Method req"
  by (induction pairs arbitrary: req) simp_all

lemma Method_chunkRequest [simp]: "Method (chunkRequest env url c hs) = ''GET''"
  by (simp add: chunkRequest_def addHeaders_def NewRequest_def Let_def)

lemma Method_sequentialRequest [simp]: "Method (sequentialRequest env u hs) = ''GET''"
  by (simp add: sequentialRequest_def addHeaders_def NewRequest_def)

lemma Method_probeRequest [simp]: "Method (probeRequest url) = ''HEAD''"
  by (simp add: probeRequest_def NewRequest_def)

lemma probe_testServer:
  "Do env = testServer (headResponse h len) getResp \<Longrightarrow>
   checkRangeSupport env url
     = Inr (Header_Get env h ''Accept-Ranges'' = ''bytes'', len)"
  by (simp add: checkRangeSupport_def testServer_def headResponse_def StatusOK_def Let_def)

lemma downloadChunk_testServer_empty:
  "Do env = testServer headResp (getResponse 206 []) \<Longrightarrow>
   downloadChunk env url c f hs d = (None, f, d)"
  by (simp add: downloadChunk_def testServer_def getResponse_def StatusPartialContent_def Let_def)

lemma downloadChunk_testServer_status:
  "Do env = testServer headResp (getResponse code body) \<Longrightarrow> code \<noteq> 206 \<Longrightarrow>
   downloadChunk env url c f hs d = (Some (BadChunkStatus code), f, d)"
  by (simp add: downloadChunk_def testServer_def getResponse_def StatusPartialContent_def Let_def)

lemma goroutine_testServer_empty:
  "Do env = testServer headResp (getResponse 206 []) \<Longrightarrow> goroutine env url hs c idx g = g"
  by (simp add: goroutine_def downloadChunk_testServer_empty)

lemma fold_goroutine_testServer_empty:
  "Do env = testServer headResp (getResponse 206 []) \<Longrightarrow>
   fold (\<lambda>idx. goroutine env url hs (cs ! idx) idx) order g = g"
  by (induction order) (simp_all add: goroutine_testServer_empty)

lemma fetchAll_testServer_empty:
  "Do env = testServer headResp (getResponse 206 []) \<Longrightarrow> fetchAll env url hs cs g = g"
  by (simp add: fetchAll_def fold_goroutine_testServer_empty)

lemma goroutine_testServer_status:
  "Do env = testServer headResp (getResponse code body) \<Longrightarrow> code \<noteq> 206 \<Longrightarrow>
   goroutine env url hs c idx g
     = g\<lparr>errChan := (case errChan g of None \<Rightarrow> Some (ChunkFailed idx (BadChunkStatus code))
                                      | Some first \<Rightarrow> Some first),
         cancelled := True\<rparr>"
  by (simp add: goroutine_def downloadChunk_testServer_status Let_def split: option.splits)

lemma runOrder_nil_4: "runOrder [] 4 = [0, 1, 2, 3]"
  by (simp add: runOrder_def upt_rec)

lemma length_planChunks_small: "fileSize \<le> 1024 * 1024 * 1024 \<Longrightarrow> length (planChunks fileSize) = 4"
  by (simp add: planChunks_def calculateConcurrency_def Let_def)

lemma testEnv_simps [simp]:
  "Do (testEnv server) = server"
  "ParseRequestURI (testEnv server) u = Inr \<lparr>Path = ''/file.zip'', url_String = u\<rparr>"
  "Base (testEnv server) p = ''file.zip''"
  "CanonicalMIMEHeaderKey (testEnv server) k = k"
  "create_fault (testEnv server) name = None"
  "rename_fault (testEnv server) oldpath newpath = None"
  "write_fault (testEnv server) name = (\<lambda>k. None)"
  "sched (testEnv server) = []"
  by (simp_all add: testEnv_def)


lemma empty_body_run:
  "downloadFile (testEnv (testServer (headResponse acceptRanges len) (getResponse 206 [])))
     testURL [] [] True emptyFS
   = (None, \<lparr>files = [''file.zip'' \<mapsto> \<lparr>wlog = [], pos = 0, wfault = (\<lambda>k. None)\<rparr>],
        trace = [OsCreate ''file.zip.tmp'', OsRename ''file.zip.tmp'' ''file.zip'',
                 OsRemove ''file.zip.tmp'']\<rparr>)"
proof -
  let ?env = "testEnv (testServer (headResponse acceptRanges len) (getResponse 206 []))"
  have p: "checkRangeSupport ?env testURL = Inr (True, len)"
    by (simp add: probe_testServer Header_Get_def acceptRanges_def)
  have f: "fetchAll ?env url hs cs g = g" for url hs cs g
    by (rule fetchAll_testServer_empty) simp
  have c: "chunkedDownload ?env testURL ''file.zip'' [] len emptyFS
   = (None, \<lparr>files = [''file.zip'' \<mapsto> \<lparr>wlog = [], pos = 0, wfault = (\<lambda>k. None)\<rparr>],
        trace = [OsCreate ''file.zip.tmp'', OsRename ''file.zip.tmp'' ''file.zip'',
                 OsRemove ''file.zip.tmp'']\<rparr>)"
    by (simp add: chunkedDownload_def f os_Create_def os_Rename_def os_Remove_def emptyFS_def
        Let_def)
  show ?thesis
    by (simp add: downloadFile_def p c getFilename_def)
qed

lemma sequential_run:
  "downloadFile (testEnv (testServer (headResponse (\<lambda>k. []) 10)
        (getResponse 200 [(''0123456789'', Some EOF)])))
     testURL [] [] True emptyFS
   = (None, \<lparr>files = [''file.zip'' \<mapsto>
                 \<lparr>wlog = [(0, ''0123456789'')], pos = 10, wfault = (\<lambda>k. None)\<rparr>],
        trace = [OsCreate ''file.zip'']\<rparr>)"
proof -
  let ?env = "testEnv (testServer (headResponse (\<lambda>k. []) 10)
        (getResponse 200 [(''0123456789'', Some EOF)]))"
  have p: "checkRangeSupport ?env testURL = Inr (False, 10)"
    by (simp add: probe_testServer Header_Get_def)
  have c: "sequentialDownload ?env \<lparr>Path = ''/file.zip'', url_String = testURL\<rparr>
       ''file.zip'' [] True emptyFS
   = (None, \<lparr>files = [''file.zip'' \<mapsto>
                 \<lparr>wlog = [(0, ''0123456789'')], pos = 10, wfault = (\<lambda>k. None)\<rparr>],
        trace = [OsCreate ''file.zip'']\<rparr>)"
    by (simp add: sequentialDownload_def testServer_def getResponse_def StatusOK_def
        os_Create_def Write_def WriteAt_def i64_def emptyFS_def Let_def)
  show ?thesis
    by (simp add: downloadFile_def p c getFilename_def)
qed

section \<open>Properties of the request headers\<close>

text \<open>
  The custom headers reach the chunk requests and the sequential request: every pair of
  the header string is added with \<open>Header.Add\<close>, which appends to the values the key
  already has, so nothing is overwritten and a key given twice has both values.
\<close>

lemma probeRequest_no_header: "Header (probeRequest url) k = []"
  by (simp add: probeRequest_def NewRequest_def)

lemma Header_addPair:
  "Header (addPair env pair req) k =
     Header req k @
       (if length (SplitN2 pair (CHR '':'')) = 2
           \<and> CanonicalMIMEHeaderKey env (TrimSpace (SplitN2 pair (CHR '':'') ! 0)) = k
        then [TrimSpace (SplitN2 pair (CHR '':'') ! 1)] else [])"
  by (simp add: addPair_def Header_Add_def Let_def)

lemma Header_fold_addPair:
  "\<exists>vs. Header (fold (addPair env) pairs req) k = Header req k @ vs"
proof (induction pairs arbitrary: req)
  case Nil
  then show ?case by simp
next
  case (Cons pair pairs)
  from Cons.IH [of "addPair env pair req"] obtain vs where
    "Header (fold (addPair env) pairs (addPair env pair req)) k
       = Header (addPair env pair req) k @ vs" by blast
  then show ?case by (simp add: Header_addPair)
qed

lemma addHeaders_keeps_values:
  "\<exists>vs. Header (addHeaders env headers req) k = Header req k @ vs"
  using Header_fold_addPair [of env _ req k] by (simp add: addHeaders_def)

lemma Split_example:
  "Split ''User-Agent:custom,X-Test:1'' (CHR '','') = [''User-Agent:custom'', ''X-Test:1'']"
  by simp

lemma addPair_examples:
  "addPair (testEnv server) ''User-Agent:custom'' req
     = req\<lparr>Header := (Header req)(''User-Agent'' := Header req ''User-Agent'' @ [''custom''])\<rparr>"
  "addPair (testEnv server) ''X-Test:1'' req
     = req\<lparr>Header := (Header req)(''X-Test'' := Header req ''X-Test'' @ [''1''])\<rparr>"
  "addPair (testEnv server) ''X-Test:2'' req
     = req\<lparr>Header := (Header req)(''X-Test'' := Header req ''X-Test'' @ [''2''])\<rparr>"
  by (simp_all add: addPair_def SplitN2_def TrimSpace_def spaceRunes_def dropRune_def
      Header_Add_def Let_def)

lemma addHeaders_example:
  "addHeaders (testEnv server) ''User-Agent:custom,X-Test:1'' req
     = req\<lparr>Header := (Header req)(''User-Agent'' := Header req ''User-Agent'' @ [''custom''],
                                   ''X-Test'' := Header req ''X-Test'' @ [''1''])\<rparr>"
  by (simp add: addHeaders_def Split_example addPair_examples)

lemma chunkRequest_example:
  "Header (chunkRequest (testEnv server) url c ''User-Agent:custom,X-Test:1'') ''User-Agent''
     = [''custom'']
   \<and> Header (chunkRequest (testEnv server) url c ''User-Agent:custom,X-Test:1'') ''X-Test''
     = [''1'']"
  by (simp add: chunkRequest_def addHeaders_example NewRequest_def Header_Set_def Let_def)

lemma sequentialRequest_example:
  "Header (sequentialRequest (testEnv server) u ''User-Agent:custom,X-Test:1'') ''User-Agent''
     = [''custom'']
   \<and> Header (sequentialRequest (testEnv server) u ''User-Agent:custom,X-Test:1'') ''X-Test''
     = [''1'']"
  by (simp add: sequentialRequest_def addHeaders_example NewRequest_def)

lemma duplicate_key_example:
  "Header (sequentialRequest (testEnv server) u ''X-Test:1,X-Test:2'') ''X-Test'' = [''1'', ''2'']"
  by (simp add: sequentialRequest_def addHeaders_def addPair_examples NewRequest_def)

text \<open>
  C4 at the header string \<open>User-Agent:custom,X-Test:1\<close>. The chunk requests and the
  sequential request carry both headers (\<open>chunkRequest_example\<close>,
  \<open>sequentialRequest_example\<close>), and a repeated key keeps every value
  (\<open>duplicate_key_example\<close>). The metadata probe does not carry them:
  \<open>checkRangeSupport\<close> is not given the header string, and its \<open>HEAD\<close> request has no
  header at all. Against a server that refuses requests without the two headers,
  \<open>downloadFile\<close> with this header string fails at the probe with status 403.
\<close>

theorem probe_without_custom_headers:
  "Header (probeRequest testURL) ''User-Agent'' = []
   \<and> Header (probeRequest testURL) ''X-Test'' = []
   \<and> checkRangeSupport (testEnv strictServer) testURL = Inl (BadStatus 403)
   \<and> downloadFile (testEnv strictServer) testURL [] ''User-Agent:custom,X-Test:1'' True emptyFS
       = (Some (BadStatus 403), emptyFS)"
proof -
  have p: "checkRangeSupport (testEnv strictServer) testURL = Inl (BadStatus 403)"
    by (simp add: checkRangeSupport_def strictServer_def probeRequest_no_header getResponse_def
        StatusOK_def Let_def)
  then have "downloadFile (testEnv strictServer) testURL [] ''User-Agent:custom,X-Test:1'' True
      emptyFS = (Some (BadStatus 403), emptyFS)"
    by (simp add: downloadFile_def)
  with p show ?thesis by (simp add: probeRequest_no_header)
qed

section \<open>Properties of the coordinator\<close>

lemma os_Create_trace: "trace (snd (os_Create env name fs)) = trace fs @ [OsCreate name]"
  by (simp add: os_Create_def Let_def split: option.splits)

lemma sequentialDownload_trace:
  "trace (snd (sequentialDownload env u name h v fs)) = trace fs
   \<or> trace (snd (sequentialDownload env u name h v fs)) = trace fs @ [OsCreate name]"
  by (auto simp: sequentialDownload_def os_Create_def Let_def
      split: sum.splits option.splits prod.splits)

lemma goroutine_errChan:
  "errChan g = None \<or> (\<exists>idx e. errChan g = Some (ChunkFailed idx e)) \<Longrightarrow>
   errChan (goroutine env url h c i g) = None
   \<or> (\<exists>idx e. errChan (goroutine env url h c i g) = Some (ChunkFailed idx e))"
  by (auto simp: goroutine_def Let_def split: prod.splits option.splits)

lemma fold_goroutine_errChan:
  "errChan g = None \<or> (\<exists>idx e. errChan g = Some (ChunkFailed idx e)) \<Longrightarrow>
   errChan (fold (\<lambda>idx. goroutine env url h (cs ! idx) idx) order g) = None
   \<or> (\<exists>idx e. errChan (fold (\<lambda>idx. goroutine env url h (cs ! idx) idx) order g)
         = Some (ChunkFailed idx e))"
proof (induction order arbitrary: g)
  case Nil
  then show ?case by simp
next
  case (Cons i order)
  show ?case
    using Cons.IH [OF goroutine_errChan [OF Cons.prems]] by simp
qed

lemma fetchAll_errChan:
  "errChan g = None \<Longrightarrow>
   errChan (fetchAll env url h cs g) = None
   \<or> (\<exists>idx e. errChan (fetchAll env url h cs g) = Some (ChunkFailed idx e))"
  unfolding fetchAll_def by (rule fold_goroutine_errChan) simp

lemma chunkedDownload_cleanup:
  assumes "create_fault env (name @ ''.tmp'') = None"
    and "chunkedDownload env url name h sz fs = (r, fs')"
  shows "files fs' (name @ ''.tmp'') = None \<and> last (trace fs') = OsRemove (name @ ''.tmp'')"
  using assms
  by (auto simp: chunkedDownload_def os_Create_def os_Remove_def Let_def
      split: prod.splits option.splits sum.splits)

lemma chunkedDownload_error:
  assumes "create_fault env (name @ ''.tmp'') = None"
    and "chunkedDownload env url name h sz fs = (Some err, fs')"
  shows "(\<exists>idx e. err = ChunkFailed idx e)
     \<or> (\<exists>e. rename_fault env (name @ ''.tmp'') name = Some e \<and> err = RenameFailed e)"
proof -
  let ?tmp = "name @ ''.tmp''"
  let ?f = "\<lparr>wlog = [], pos = 0, wfault = write_fault env ?tmp\<rparr>"
  let ?g = "fetchAll env url h (planChunks sz)
              \<lparr>errChan = None, cancelled = False, fd = ?f, downloaded = 0\<rparr>"
  have e: "errChan ?g = None \<or> (\<exists>idx e. errChan ?g = Some (ChunkFailed idx e))"
    by (rule fetchAll_errChan) simp
  show ?thesis
  proof (cases "errChan ?g")
    case (Some x)
    with e obtain idx e' where "x = ChunkFailed idx e'" by auto
    with Some assms show ?thesis
      by (auto simp: chunkedDownload_def os_Create_def Let_def split: prod.splits)
  next
    case None
    with assms show ?thesis
      by (auto simp: chunkedDownload_def os_Create_def os_Rename_def Let_def
          split: prod.splits option.splits)
  qed
qed

lemma goroutine_errChan_sticky:
  "errChan g \<noteq> None \<Longrightarrow> errChan (goroutine env url h c i g) \<noteq> None"
  by (auto simp: goroutine_def Let_def split: prod.splits option.splits)

lemma fold_goroutine_errChan_sticky:
  "errChan g \<noteq> None \<Longrightarrow>
   errChan (fold (\<lambda>idx. goroutine env url h (cs ! idx) idx) order g) \<noteq> None"
proof (induction order arbitrary: g)
  case Nil
  then show ?case by simp
next
  case (Cons j order)
  from Cons.IH [OF goroutine_errChan_sticky [OF Cons.prems]] show ?case by simp
qed

lemma goroutine_bad_status:
  assumes "Do env (chunkRequest env url c h) = Inr resp"
    and "StatusCode resp \<noteq> StatusPartialContent"
  shows "errChan (goroutine env url h c i g) \<noteq> None"
  using assms
  by (auto simp: goroutine_def downloadChunk_def Let_def split: option.splits)

lemma fold_goroutine_bad_status:
  assumes "i \<in> set order"
    and "Do env (chunkRequest env url (cs ! i) h) = Inr resp"
    and "StatusCode resp \<noteq> StatusPartialContent"
  shows "errChan (fold (\<lambda>idx. goroutine env url h (cs ! idx) idx) order g) \<noteq> None"
  using assms(1)
proof (induction order arbitrary: g)
  case Nil
  then show ?case by simp
next
  case (Cons j order)
  show ?case
  proof (cases "j = i")
    case True
    have "errChan (goroutine env url h (cs ! i) i g) \<noteq> None"
      by (rule goroutine_bad_status [OF assms(2,3)])
    then show ?thesis using True by (simp add: fold_goroutine_errChan_sticky)
  next
    case False
    with Cons.prems have "i \<in> set order" by simp
    from Cons.IH [OF this] show ?thesis by simp
  qed
qed

lemma set_runOrder: "set (runOrder s n) = {0 ..< n}"
  by (auto simp: runOrder_def Let_def)

lemma bad_chunk_is_fatal:
  assumes "i < length (planChunks fileSize)"
    and "Do env (chunkRequest env urlLink (planChunks fileSize ! i) headers) = Inr resp"
    and "StatusCode resp \<noteq> StatusPartialContent"
    and "create_fault env (name @ ''.tmp'') = None"
  shows "\<exists>idx e. fst (chunkedDownload env urlLink name headers fileSize fs)
            = Some (ChunkFailed idx e)"
proof -
  let ?tmp = "name @ ''.tmp''"
  let ?f = "\<lparr>wlog = [], pos = 0, wfault = write_fault env ?tmp\<rparr>"
  let ?g = "fetchAll env urlLink headers (planChunks fileSize)
              \<lparr>errChan = None, cancelled = False, fd = ?f, downloaded = 0\<rparr>"
  have "i \<in> set (runOrder (sched env) (length (planChunks fileSize)))"
    using assms(1) by (simp add: set_runOrder)
  then have a: "errChan ?g \<noteq> None"
    unfolding fetchAll_def by (rule fold_goroutine_bad_status [OF _ assms(2,3)])
  have b: "errChan ?g = None \<or> (\<exists>idx e. errChan ?g = Some (ChunkFailed idx e))"
    by (rule fetchAll_errChan) simp
  from a b obtain idx e where "errChan ?g = Some (ChunkFailed idx e)"
    by (cases "errChan ?g") auto
  then show ?thesis using assms(4)
    by (auto simp: chunkedDownload_def os_Create_def Let_def split: prod.splits)
qed

lemma chunkedDownload_trace:
  "\<exists>cs. trace (snd (chunkedDownload env url name h sz fs))
          = trace fs @ OsCreate (name @ ''.tmp'') # cs"
  by (auto simp: chunkedDownload_def os_Create_def os_Remove_def os_Rename_def Let_def
      split: prod.splits option.splits sum.splits)



lemma downloadFile_unfold:
  assumes "ParseRequestURI env urlLink = Inr parsedURL"
    and "checkRangeSupport env urlLink = Inr (supportsRange, totalSize)"
    and "name = (if filename = [] then getFilename env parsedURL else filename)"
  shows "downloadFile env urlLink filename headers verbose fs =
     (if \<not> supportsRange then sequentialDownload env parsedURL name headers verbose fs
      else chunkedDownload env urlLink name headers totalSize fs)"
  using assms by (simp add: downloadFile_def Let_def)

text \<open>
  C2, as the code has it. The branch of \<open>downloadFile\<close> looks at \<open>supportsRange\<close> only.
  When the probe reports \<open>supportsRange = false\<close>, \<open>downloadFile\<close> is the sequential
  download and makes no \<open>os.Create\<close> of the temporary file \<open><output>.tmp\<close>; when it
  reports \<open>supportsRange = true\<close>, whatever \<open>totalSize\<close> is, \<open>downloadFile\<close> is the chunked
  download, whose first file-system call creates \<open><output>.tmp\<close>.
\<close>

theorem downloadFile_branch:
  assumes "ParseRequestURI env urlLink = Inr parsedURL"
    and "checkRangeSupport env urlLink = Inr (supportsRange, totalSize)"
    and "name = (if filename = [] then getFilename env parsedURL else filename)"
  shows "(\<not> supportsRange \<longrightarrow>
            downloadFile env urlLink filename headers verbose fs
              = sequentialDownload env parsedURL name headers verbose fs
            \<and> OsCreate (name @ ''.tmp'')
                \<notin> set (calls_since fs (snd (downloadFile env urlLink filename headers verbose fs))))
       \<and> (supportsRange \<longrightarrow>
            downloadFile env urlLink filename headers verbose fs
              = chunkedDownload env urlLink name headers totalSize fs
            \<and> hd (calls_since fs (snd (downloadFile env urlLink filename headers verbose fs)))
                = OsCreate (name @ ''.tmp''))"
proof (cases supportsRange)
  case False
  have u: "downloadFile env urlLink filename headers verbose fs
              = sequentialDownload env parsedURL name headers verbose fs"
    using downloadFile_unfold [OF assms] False by simp
  have "name \<noteq> name @ ''.tmp''" by simp
  then have "OsCreate (name @ ''.tmp'')
      \<notin> set (calls_since fs (snd (sequentialDownload env parsedURL name headers verbose fs)))"
    using sequentialDownload_trace [of env parsedURL name headers verbose fs]
    by (auto simp: calls_since_def)
  with u False show ?thesis by simp
next
  case True
  have u: "downloadFile env urlLink filename headers verbose fs
              = chunkedDownload env urlLink name headers totalSize fs"
    using downloadFile_unfold [OF assms] True by simp
  have "hd (calls_since fs (snd (chunkedDownload env urlLink name headers totalSize fs)))
          = OsCreate (name @ ''.tmp'')"
    using chunkedDownload_trace [of env urlLink name headers totalSize fs]
    by (auto simp: calls_since_def)
  with u True show ?thesis by simp
qed

theorem downloadFile_branch_witness:
  "checkRangeSupport (testEnv (testServer (headResponse (\<lambda>k. []) 10)
        (getResponse 200 [(''0123456789'', Some EOF)]))) testURL = Inr (False, 10)
   \<and> downloadFile (testEnv (testServer (headResponse (\<lambda>k. []) 10)
          (getResponse 200 [(''0123456789'', Some EOF)]))) testURL [] [] True emptyFS
      = sequentialDownload (testEnv (testServer (headResponse (\<lambda>k. []) 10)
          (getResponse 200 [(''0123456789'', Some EOF)])))
          \<lparr>Path = ''/file.zip'', url_String = testURL\<rparr> ''file.zip'' [] True emptyFS
   \<and> trace (snd (downloadFile (testEnv (testServer (headResponse (\<lambda>k. []) 10)
          (getResponse 200 [(''0123456789'', Some EOF)]))) testURL [] [] True emptyFS))
      = [OsCreate ''file.zip'']
   \<and> OsCreate ''file.zip.tmp''
        \<notin> set (calls_since emptyFS (snd (downloadFile (testEnv (testServer
            (headResponse (\<lambda>k. []) 10) (getResponse 200 [(''0123456789'', Some EOF)])))
            testURL [] [] True emptyFS)))
   \<and> checkRangeSupport (testEnv (testServer (headResponse acceptRanges 8) (getResponse 206 [])))
        testURL = Inr (True, 8)
   \<and> hd (calls_since emptyFS (snd (downloadFile (testEnv (testServer
            (headResponse acceptRanges 8) (getResponse 206 []))) testURL [] [] True emptyFS)))
      = OsCreate ''file.zip.tmp''"
proof -
  let ?e1 = "testEnv (testServer (headResponse (\<lambda>k. []) 10)
        (getResponse 200 [(''0123456789'', Some EOF)]))"
  let ?e2 = "testEnv (testServer (headResponse acceptRanges 8) (getResponse 206 []))"
  let ?u = "\<lparr>Path = ''/file.zip'', url_String = testURL\<rparr>"
  have p1: "checkRangeSupport ?e1 testURL = Inr (False, 10)"
    by (simp add: probe_testServer Header_Get_def)
  have p2: "checkRangeSupport ?e2 testURL = Inr (True, 8)"
    by (simp add: probe_testServer Header_Get_def acceptRanges_def)
  have n1: "''file.zip'' = (if [] = [] then getFilename ?e1 ?u else [])"
    and n2: "''file.zip'' = (if [] = [] then getFilename ?e2 ?u else [])"
    by (simp_all add: getFilename_def)
  have u1: "ParseRequestURI ?e1 testURL = Inr ?u" and u2: "ParseRequestURI ?e2 testURL = Inr ?u"
    by simp_all
  note i1 = downloadFile_branch [OF u1 p1 n1, of "[]" True emptyFS]
  from i1 have a1: "downloadFile ?e1 testURL [] [] True emptyFS
             = sequentialDownload ?e1 ?u ''file.zip'' [] True emptyFS"
    by blast
  from i1 have "OsCreate (''file.zip'' @ ''.tmp'')
        \<notin> set (calls_since emptyFS (snd (downloadFile ?e1 testURL [] [] True emptyFS)))"
    by blast
  then have a2: "OsCreate ''file.zip.tmp''
        \<notin> set (calls_since emptyFS (snd (downloadFile ?e1 testURL [] [] True emptyFS)))"
    by simp
  from downloadFile_branch [OF u2 p2 n2, of "[]" True emptyFS]
  have "hd (calls_since emptyFS (snd (downloadFile ?e2 testURL [] [] True emptyFS)))
      = OsCreate (''file.zip'' @ ''.tmp'')"
    by blast
  then have b: "hd (calls_since emptyFS (snd (downloadFile ?e2 testURL [] [] True emptyFS)))
      = OsCreate ''file.zip.tmp''"
    by simp
  have t: "trace (snd (downloadFile ?e1 testURL [] [] True emptyFS)) = [OsCreate ''file.zip'']"
    by (simp add: sequential_run)
  from p1 a1 a2 t p2 b show ?thesis by blast
qed

text \<open>
  The claim fails for \<open>totalSize = 0\<close>: with \<open>supportsRange = true\<close> and a declared
  length of 0 the temporary file is created, and the chunked download runs.
\<close>

theorem downloadFile_empty_size_counterexample:
  "checkRangeSupport (testEnv (testServer (headResponse acceptRanges 0) (getResponse 206 [])))
        testURL = Inr (True, 0)
   \<and> trace (snd (downloadFile (testEnv (testServer (headResponse acceptRanges 0)
          (getResponse 206 []))) testURL [] [] True emptyFS))
      = [OsCreate ''file.zip.tmp'', OsRename ''file.zip.tmp'' ''file.zip'',
         OsRemove ''file.zip.tmp'']
   \<and> OsCreate ''file.zip.tmp''
        \<in> set (calls_since emptyFS (snd (downloadFile (testEnv (testServer
            (headResponse acceptRanges 0) (getResponse 206 []))) testURL [] [] True emptyFS)))"
proof -
  let ?env = "testEnv (testServer (headResponse acceptRanges 0) (getResponse 206 []))"
  have p: "checkRangeSupport ?env testURL = Inr (True, 0)"
    by (simp add: probe_testServer Header_Get_def acceptRanges_def)
  have t: "trace (snd (downloadFile ?env testURL [] [] True emptyFS))
      = [OsCreate ''file.zip.tmp'', OsRename ''file.zip.tmp'' ''file.zip'',
         OsRemove ''file.zip.tmp'']"
    by (simp add: empty_body_run)
  have "trace emptyFS = []" by (simp add: emptyFS_def)
  with t have "OsCreate ''file.zip.tmp''
        \<in> set (calls_since emptyFS (snd (downloadFile ?env testURL [] [] True emptyFS)))"
    by (simp add: calls_since_def)
  with p t show ?thesis by blast
qed


text \<open>
  C8. When the chunked path has created the temporary file and \<open>downloadFile\<close> returns an
  error, the temporary file is gone from the file system and the last file-system call
  is its \<open>os.Remove\<close>. The error is either a chunk's error taken from the channel, or,
  when every chunk succeeded, the wrapped error of the \<open>os.Rename\<close> that failed.
  (That a chunk answered with a status other than 206 makes the run fail with a chunk's
  error, in every schedule, is \<open>bad_chunk_is_fatal\<close>.)
\<close>

theorem downloadFile_cleanup:
  assumes "ParseRequestURI env urlLink = Inr parsedURL"
    and "checkRangeSupport env urlLink = Inr (True, fileSize)"
    and "name = (if filename = [] then getFilename env parsedURL else filename)"
    and "create_fault env (name @ ''.tmp'') = None"
    and "downloadFile env urlLink filename headers verbose fs = (Some err, fs')"
  shows "files fs' (name @ ''.tmp'') = None
       \<and> last (trace fs') = OsRemove (name @ ''.tmp'')
       \<and> ((\<exists>idx e. err = ChunkFailed idx e)
          \<or> (\<exists>e. rename_fault env (name @ ''.tmp'') name = Some e \<and> err = RenameFailed e))"
proof -
  have c: "chunkedDownload env urlLink name headers fileSize fs = (Some err, fs')"
    using downloadFile_unfold [OF assms(1,2,3)] assms(5) by simp
  from chunkedDownload_cleanup [OF assms(4) c] chunkedDownload_error [OF assms(4) c]
  show ?thesis by blast
qed

lemma failed_chunk_run:
  "downloadFile (testEnv (testServer (headResponse acceptRanges 8)
        (getResponse 200 [(''abcdefgh'', Some EOF)]))) testURL [] [] True emptyFS
   = (Some (ChunkFailed 0 (BadChunkStatus 200)),
      \<lparr>files = Map.empty, trace = [OsCreate ''file.zip.tmp'', OsRemove ''file.zip.tmp'']\<rparr>)"
proof -
  let ?env = "testEnv (testServer (headResponse acceptRanges 8)
        (getResponse 200 [(''abcdefgh'', Some EOF)]))"
  have p: "checkRangeSupport ?env testURL = Inr (True, 8)"
    by (simp add: probe_testServer Header_Get_def acceptRanges_def)
  have g: "goroutine ?env url hs c idx g
     = g\<lparr>errChan := (case errChan g of None \<Rightarrow> Some (ChunkFailed idx (BadChunkStatus 200))
                                      | Some first \<Rightarrow> Some first),
         cancelled := True\<rparr>" for url hs c idx g
    by (rule goroutine_testServer_status) simp_all
  have f: "fetchAll ?env testURL [] (planChunks 8)
        \<lparr>errChan = None, cancelled = False, fd = f0, downloaded = 0\<rparr>
      = \<lparr>errChan = Some (ChunkFailed 0 (BadChunkStatus 200)), cancelled = True, fd = f0,
         downloaded = 0\<rparr>" for f0
    by (simp add: fetchAll_def length_planChunks_small runOrder_nil_4 g)
  have c: "chunkedDownload ?env testURL ''file.zip'' [] 8 emptyFS
   = (Some (ChunkFailed 0 (BadChunkStatus 200)),
      \<lparr>files = Map.empty, trace = [OsCreate ''file.zip.tmp'', OsRemove ''file.zip.tmp'']\<rparr>)"
    by (simp add: chunkedDownload_def f os_Create_def os_Remove_def emptyFS_def Let_def)
  show ?thesis
    by (simp add: downloadFile_def p c getFilename_def)
qed

lemma failed_rename_run:
  "downloadFile ((testEnv (testServer (headResponse acceptRanges 8) (getResponse 206 [])))
        \<lparr>rename_fault := (\<lambda>oldpath newpath. Some (LibError ''permission denied''))\<rparr>)
     testURL [] [] True emptyFS
   = (Some (RenameFailed (LibError ''permission denied'')),
      \<lparr>files = Map.empty,
        trace = [OsCreate ''file.zip.tmp'', OsRename ''file.zip.tmp'' ''file.zip'',
                 OsRemove ''file.zip.tmp'']\<rparr>)"
proof -
  let ?env = "(testEnv (testServer (headResponse acceptRanges 8) (getResponse 206 [])))
        \<lparr>rename_fault := (\<lambda>oldpath newpath. Some (LibError ''permission denied''))\<rparr>"
  have p: "checkRangeSupport ?env testURL = Inr (True, 8)"
    by (simp add: probe_testServer Header_Get_def acceptRanges_def)
  have f: "fetchAll ?env url hs cs g = g" for url hs cs g
    by (rule fetchAll_testServer_empty) simp
  have c: "chunkedDownload ?env testURL ''file.zip'' [] 8 emptyFS
   = (Some (RenameFailed (LibError ''permission denied'')),
      \<lparr>files = Map.empty,
        trace = [OsCreate ''file.zip.tmp'', OsRename ''file.zip.tmp'' ''file.zip'',
                 OsRemove ''file.zip.tmp'']\<rparr>)"
    by (simp add: chunkedDownload_def f os_Create_def os_Rename_def os_Remove_def emptyFS_def
        Let_def)
  show ?thesis
    by (simp add: downloadFile_def p c getFilename_def)
qed

theorem downloadFile_cleanup_witness:
  "downloadFile (testEnv (testServer (headResponse acceptRanges 8)
        (getResponse 200 [(''abcdefgh'', Some EOF)]))) testURL [] [] True emptyFS
   = (Some (ChunkFailed 0 (BadChunkStatus 200)),
      \<lparr>files = Map.empty, trace = [OsCreate ''file.zip.tmp'', OsRemove ''file.zip.tmp'']\<rparr>)
   \<and> files \<lparr>files = Map.empty, trace = [OsCreate ''file.zip.tmp'', OsRemove ''file.zip.tmp'']\<rparr>
        ''file.zip.tmp'' = None
   \<and> downloadFile ((testEnv (testServer (headResponse acceptRanges 8) (getResponse 206 [])))
        \<lparr>rename_fault := (\<lambda>oldpath newpath. Some (LibError ''permission denied''))\<rparr>)
     testURL [] [] True emptyFS
   = (Some (RenameFailed (LibError ''permission denied'')),
      \<lparr>files = Map.empty,
        trace = [OsCreate ''file.zip.tmp'', OsRename ''file.zip.tmp'' ''file.zip'',
                 OsRemove ''file.zip.tmp'']\<rparr>)
   \<and> last (trace \<lparr>files = Map.empty,
        trace = [OsCreate ''file.zip.tmp'', OsRename ''file.zip.tmp'' ''file.zip'',
                 OsRemove ''file.zip.tmp'']\<rparr>) = OsRemove ''file.zip.tmp''"
proof -
  let ?e1 = "testEnv (testServer (headResponse acceptRanges 8)
        (getResponse 200 [(''abcdefgh'', Some EOF)]))"
  let ?e2 = "(testEnv (testServer (headResponse acceptRanges 8) (getResponse 206 [])))
        \<lparr>rename_fault := (\<lambda>oldpath newpath. Some (LibError ''permission denied''))\<rparr>"
  let ?u = "\<lparr>Path = ''/file.zip'', url_String = testURL\<rparr>"
  have p1: "checkRangeSupport ?e1 testURL = Inr (True, 8)"
    and p2: "checkRangeSupport ?e2 testURL = Inr (True, 8)"
    by (simp_all add: probe_testServer Header_Get_def acceptRanges_def)
  have n1: "''file.zip'' = (if [] = [] then getFilename ?e1 ?u else [])"
    and n2: "''file.zip'' = (if [] = [] then getFilename ?e2 ?u else [])"
    by (simp_all add: getFilename_def)
  have u1: "ParseRequestURI ?e1 testURL = Inr ?u" and u2: "ParseRequestURI ?e2 testURL = Inr ?u"
    by simp_all
  have c1: "create_fault ?e1 (''file.zip'' @ ''.tmp'') = None"
    and c2: "create_fault ?e2 (''file.zip'' @ ''.tmp'') = None"
    by simp_all
  from downloadFile_cleanup [OF u1 p1 n1 c1 failed_chunk_run]
  have "files \<lparr>files = Map.empty, trace = [OsCreate ''file.zip.tmp'', OsRemove ''file.zip.tmp'']\<rparr>
        (''file.zip'' @ ''.tmp'') = None"
    by blast
  then have a: "files \<lparr>files = Map.empty,
        trace = [OsCreate ''file.zip.tmp'', OsRemove ''file.zip.tmp'']\<rparr> ''file.zip.tmp'' = None"
    by simp
  from downloadFile_cleanup [OF u2 p2 n2 c2 failed_rename_run]
  have "last (trace \<lparr>files = Map.empty,
        trace = [OsCreate ''file.zip.tmp'', OsRename ''file.zip.tmp'' ''file.zip'',
                 OsRemove ''file.zip.tmp'']\<rparr>) = OsRemove (''file.zip'' @ ''.tmp'')"
    by blast
  then have b: "last (trace \<lparr>files = Map.empty,
        trace = [OsCreate ''file.zip.tmp'', OsRename ''file.zip.tmp'' ''file.zip'',
                 OsRemove ''file.zip.tmp'']\<rparr>) = OsRemove ''file.zip.tmp''"
    by simp
  from failed_chunk_run a failed_rename_run b show ?thesis by blast
qed


















end
